theory Spec2Isabelle
  imports Complex_Main "HOL-Library.Monad_Syntax"
begin

section \<open>Conventions of the embedding\<close>

text \<open>
  The development embeds three Python files: \<^verbatim>\<open>mini_rl_lib/random_mdp_factory.py\<close>
  (the closures \<^verbatim>\<open>transition_function\<close> and \<^verbatim>\<open>reward_function\<close> built by
  \<^verbatim>\<open>MDPFactory.__init__\<close>), \<^verbatim>\<open>mini_rl_lib/policies.py\<close> (the tabular solvers) and
  \<^verbatim>\<open>data.py\<close> (the function \<^verbatim>\<open>create\<close>).

  \<^item> Python floats are idealised as \<^typ>\<open>real\<close>, with one exception: the sum
    \<open>eps + 1\<close> that decides whether a solver's loop is entered is rounded to a float (see
    \<open>binary64\<close> below). Python integers that index arrays or
    count iterations are \<^typ>\<open>nat\<close> (\<^verbatim>\<open>range\<close> of a non-positive integer is empty,
    as \<^verbatim>\<open>range(0)\<close> is); the reward values are \<^typ>\<open>int\<close> in the factory, which
    only looks them up, and \<^typ>\<open>real\<close> in the solver, which computes with them.
  \<^item> An exception is a value \<open>Inl e\<close> of the result type \<open>error + 'a\<close>.
  \<^item> A \<^verbatim>\<open>while\<close> loop without a bound is a \<^theory_text>\<open>partial_function (option)\<close>:
    \<open>None\<close> is a run that never returns.
  \<^item> A \<^verbatim>\<open>for\<close> loop is a recursion over the list it ranges over, the loop variables
    being the accumulator.
\<close>

datatype error = IndexError | TypeError | ValueError | AttributeError | UnboundLocalError

section \<open>NumPy arrays\<close>

text \<open>
  An n-dimensional array is a nest of lists with scalars at the leaves. Indexing with a
  tuple \<^verbatim>\<open>x[i, j, ...]\<close> descends one axis per index; an index past the end of an axis, or
  one index too many, raises \<^verbatim>\<open>IndexError\<close>. Fewer indices than axes return the sub-array.
\<close>

datatype 'a ndarray = Scalar 'a | Array "'a ndarray list"

fun nd_item :: "'a ndarray \<Rightarrow> nat \<Rightarrow> error + 'a ndarray" where
  "nd_item (Scalar x) i = Inl IndexError"
| "nd_item (Array xs) i = (if i < length xs then Inr (xs ! i) else Inl IndexError)"

fun nd_index :: "'a ndarray \<Rightarrow> nat list \<Rightarrow> error + 'a ndarray" where
  "nd_index x [] = Inr x"
| "nd_index x (i # is) = (case nd_item x i of Inl e \<Rightarrow> Inl e | Inr y \<Rightarrow> nd_index y is)"

text \<open>\<^verbatim>\<open>len(x)\<close> of an array is the size of its first axis; a scalar has no length.\<close>

fun nd_len :: "'a ndarray \<Rightarrow> error + nat" where
  "nd_len (Scalar x) = Inl TypeError"
| "nd_len (Array xs) = Inr (length xs)"

text \<open>Iterating over an array yields the sub-arrays along its first axis.\<close>

fun nd_iter :: "'a ndarray \<Rightarrow> 'a ndarray list" where
  "nd_iter (Scalar x) = []"
| "nd_iter (Array xs) = xs"

text \<open>
  \<^verbatim>\<open>np.arange(start, stop, 1)\<close> on integers: the values \<open>start, start + 1, ...\<close> below
  \<open>stop\<close>; there are \<open>stop - start\<close> of them, none when \<open>stop \<le> start\<close>.
\<close>

definition np_arange :: "int \<Rightarrow> int \<Rightarrow> int list" where
  "np_arange start stop = map (\<lambda>k. start + int k) [0..<nat (stop - start)]"

text \<open>\<^verbatim>\<open>list.index(x)\<close>: the first position of \<open>x\<close>, \<^verbatim>\<open>ValueError\<close> when it is absent.\<close>

fun list_index :: "'a list \<Rightarrow> 'a \<Rightarrow> error + nat" where
  "list_index [] x = Inl ValueError"
| "list_index (y # ys) x =
     (if y = x then Inr 0
      else (case list_index ys x of Inl e \<Rightarrow> Inl e | Inr i \<Rightarrow> Inr (Suc i)))"

section \<open>The factory: \<^verbatim>\<open>MDPFactory.__init__\<close>\<close>

text \<open>
  The two enumerations live in \<^verbatim>\<open>enums.py\<close>; their members are the ones the factory and
  the solver compare against. The prefix keeps the two \<open>SAS\<close> members apart.
\<close>

datatype MDPTransitionType =
  S_DETERMINISTIC | S_PROBABILISTIC | SA_DETERMINISTIC | SA_PROBABILISTIC | T_SAS

datatype MDPRewardType = R_S | R_SA | R_SAS | R_SASR

text \<open>Line 35: \<^verbatim>\<open>all_rewards = np.arange(-n_rewards + 2, 2, 1)\<close>.\<close>

definition all_rewards :: "int \<Rightarrow> int list" where
  "all_rewards n_rewards = np_arange (- n_rewards + 2) 2"

text \<open>
  What \<^verbatim>\<open>transition_function\<close> returns: an entry (or sub-array) of the table, or the
  dictionary \<^verbatim>\<open>dict(zip(np.arange(len(probas)), probas))\<close>, kept as the list of its items
  in insertion order (the keys \<open>0, 1, ...\<close> are distinct).
\<close>

datatype 'a tf_value = TF_Entry "'a ndarray" | TF_Dict "(nat \<times> 'a ndarray) list"

text \<open>
  Lines 41 to 59. The argument \<open>next_s\<close> is \<open>None\<close> or a state. In the last branch a
  \<open>None\<close> index is NumPy's \<^verbatim>\<open>newaxis\<close>: it wraps the row in one more axis.
\<close>

definition transition_function ::
  "MDPTransitionType \<Rightarrow> 'a ndarray \<Rightarrow> nat \<Rightarrow> nat \<Rightarrow> nat option \<Rightarrow> error + 'a tf_value" where
  "transition_function transition_function_type transitions s a next_s =
     (case transition_function_type of
        S_DETERMINISTIC \<Rightarrow>
          (case nd_index transitions [s] of Inl e \<Rightarrow> Inl e | Inr x \<Rightarrow> Inr (TF_Entry x))
      | S_PROBABILISTIC \<Rightarrow>
          (case nd_index transitions [s] of Inl e \<Rightarrow> Inl e
           | Inr probas \<Rightarrow>
               (case nd_len probas of Inl e \<Rightarrow> Inl e
                | Inr n \<Rightarrow> Inr (TF_Dict (zip [0..<n] (nd_iter probas)))))
      | SA_DETERMINISTIC \<Rightarrow>
          (case nd_index transitions [s, a] of Inl e \<Rightarrow> Inl e | Inr x \<Rightarrow> Inr (TF_Entry x))
      | SA_PROBABILISTIC \<Rightarrow>
          (case nd_index transitions [s, a] of Inl e \<Rightarrow> Inl e
           | Inr probas \<Rightarrow>
               (case nd_len probas of Inl e \<Rightarrow> Inl e
                | Inr n \<Rightarrow> Inr (TF_Dict (zip [0..<n] (nd_iter probas)))))
      | T_SAS \<Rightarrow>
          (case next_s of
             Some ns \<Rightarrow>
               (case nd_index transitions [s, a, ns] of
                  Inl e \<Rightarrow> Inl e | Inr x \<Rightarrow> Inr (TF_Entry x))
           | None \<Rightarrow>
               (case nd_index transitions [s, a] of
                  Inl e \<Rightarrow> Inl e | Inr x \<Rightarrow> Inr (TF_Entry (Array [x])))))"

text \<open>
  Lines 61 to 73. The argument \<open>r\<close> is \<open>None\<close> or a reward value; only the \<open>SASR\<close>
  branch reads it, looking its position up in \<open>all_rewards\<close>.
\<close>

definition reward_function ::
  "MDPRewardType \<Rightarrow> 'a ndarray \<Rightarrow> int list \<Rightarrow> nat \<Rightarrow> nat \<Rightarrow> nat \<Rightarrow> int option
     \<Rightarrow> error + 'a ndarray" where
  "reward_function reward_function_type rewards all_rs s a next_s r =
     (case reward_function_type of
        R_S \<Rightarrow> nd_index rewards [s]
      | R_SA \<Rightarrow> nd_index rewards [s, a]
      | R_SAS \<Rightarrow> nd_index rewards [s, a, s]
      | R_SASR \<Rightarrow>
          (case list_index (map Some all_rs) r of
             Inl e \<Rightarrow> Inl e
           | Inr i \<Rightarrow> nd_index rewards [s, a, next_s, i]))"

section \<open>The solvers: \<^verbatim>\<open>policies.py\<close>\<close>

text \<open>
  One-dimensional arrays are lists. Reading \<^verbatim>\<open>xs[i]\<close> and writing \<^verbatim>\<open>xs[i] = x\<close> past the
  end raise \<^verbatim>\<open>IndexError\<close>.
\<close>

definition getitem :: "'a list \<Rightarrow> nat \<Rightarrow> error + 'a" where
  "getitem xs i = (if i < length xs then Inr (xs ! i) else Inl IndexError)"

definition setitem :: "'a list \<Rightarrow> nat \<Rightarrow> 'a \<Rightarrow> error + 'a list" where
  "setitem xs i x = (if i < length xs then Inr (xs[i := x]) else Inl IndexError)"

text \<open>
  \<^verbatim>\<open>np.max\<close> scans the array keeping the largest value seen; \<^verbatim>\<open>np.argmax\<close> keeps the
  position of the first value that is strictly larger than all earlier ones. Both raise
  \<^verbatim>\<open>ValueError\<close> on an empty array.
\<close>

fun np_max_loop :: "real list \<Rightarrow> real \<Rightarrow> real" where
  "np_max_loop [] mx = mx"
| "np_max_loop (x # xs) mx = np_max_loop xs (if x > mx then x else mx)"

fun np_max :: "real list \<Rightarrow> error + real" where
  "np_max [] = Inl ValueError"
| "np_max (x # xs) = Inr (np_max_loop xs x)"

fun np_argmax_loop :: "real list \<Rightarrow> nat \<Rightarrow> real \<Rightarrow> nat \<Rightarrow> nat" where
  "np_argmax_loop [] i mx best = best"
| "np_argmax_loop (x # xs) i mx best =
     (if x > mx then np_argmax_loop xs (Suc i) x i else np_argmax_loop xs (Suc i) mx best)"

fun np_argmax :: "real list \<Rightarrow> error + nat" where
  "np_argmax [] = Inl ValueError"
| "np_argmax (x # xs) = Inr (np_argmax_loop xs 1 x 0)"

text \<open>
  The model \<^verbatim>\<open>self.model\<close> of a solver (class \<^verbatim>\<open>MDP\<close> of \<^verbatim>\<open>mdp.py\<close>) enters through what the
  solver reads of it: the two sizes and the two kinds of its configuration, the reward
  values, and its two functions. The transition function returns a state for the
  deterministic kinds, the items of a dictionary from states to probabilities for the
  probabilistic kinds, and a probability for the kind \<open>SAS\<close>; both functions may raise.
\<close>

datatype tf_result = TF_State nat | TF_Items "(nat \<times> real) list" | TF_Prob real

record mdp =
  n_states :: nat
  n_actions :: nat
  transition_function_type :: MDPTransitionType
  reward_function_type :: MDPRewardType
  model_transition_function :: "nat \<Rightarrow> nat \<Rightarrow> nat option \<Rightarrow> error + tf_result"
  model_reward_function :: "nat \<Rightarrow> nat \<Rightarrow> nat \<Rightarrow> real option \<Rightarrow> error + real"
  model_all_rewards :: "real list"

text \<open>
  \<^verbatim>\<open>_update_value\<close>, lines 47 to 80. The inner function \<^verbatim>\<open>get_value\<close> (lines 48 to 60) has a
  loop over \<^verbatim>\<open>all_rewards\<close> in its \<open>SASR\<close> branch; the outer function has a loop over the
  items of the dictionary (lines 72 and 73) and a loop over all states (lines 76 to 78).
  Each loop adds to the accumulator \<open>v\<close>, which starts at \<open>0\<close>. A result of the wrong shape
  for the kind is an error where Python raises one (a state used as a dictionary, a
  dictionary or a float used as an index); an integer returned for the kind \<open>SAS\<close> is used
  as a number, as Python does.
\<close>

fun get_value_loop ::
  "mdp \<Rightarrow> real \<Rightarrow> real list \<Rightarrow> nat \<Rightarrow> nat \<Rightarrow> nat \<Rightarrow> real list \<Rightarrow> real \<Rightarrow> error + real" where
  "get_value_loop m gamma V s a next_s [] v = Inr v"
| "get_value_loop m gamma V s a next_s (r # rs) v =
     (case model_reward_function m s a next_s (Some r) of
        Inl e \<Rightarrow> Inl e
      | Inr p_r \<Rightarrow>
          (case getitem V next_s of
             Inl e \<Rightarrow> Inl e
           | Inr v_next \<Rightarrow>
               get_value_loop m gamma V s a next_s rs (v + p_r * (r + gamma * v_next))))"

definition get_value :: "mdp \<Rightarrow> real \<Rightarrow> real list \<Rightarrow> nat \<Rightarrow> nat \<Rightarrow> nat \<Rightarrow> error + real" where
  "get_value m gamma V s a next_s =
     (if reward_function_type m \<noteq> R_SASR then
        (case model_reward_function m s a next_s None of
           Inl e \<Rightarrow> Inl e
         | Inr r \<Rightarrow>
             (case getitem V next_s of
                Inl e \<Rightarrow> Inl e
              | Inr v_next \<Rightarrow> Inr (r + gamma * v_next)))
      else get_value_loop m gamma V s a next_s (model_all_rewards m) 0)"

fun items_loop ::
  "mdp \<Rightarrow> real \<Rightarrow> real list \<Rightarrow> nat \<Rightarrow> nat \<Rightarrow> (nat \<times> real) list \<Rightarrow> real \<Rightarrow> error + real" where
  "items_loop m gamma V s a [] v = Inr v"
| "items_loop m gamma V s a ((next_s, p_s) # items) v =
     (case get_value m gamma V s a next_s of
        Inl e \<Rightarrow> Inl e
      | Inr g \<Rightarrow> items_loop m gamma V s a items (v + p_s * g))"

fun states_loop ::
  "mdp \<Rightarrow> real \<Rightarrow> real list \<Rightarrow> nat \<Rightarrow> nat \<Rightarrow> nat list \<Rightarrow> real \<Rightarrow> error + real" where
  "states_loop m gamma V s a [] v = Inr v"
| "states_loop m gamma V s a (next_s # rest) v =
     (case model_transition_function m s a (Some next_s) of
        Inl e \<Rightarrow> Inl e
      | Inr (TF_Items d) \<Rightarrow> Inl TypeError
      | Inr (TF_State k) \<Rightarrow>
          (case get_value m gamma V s a next_s of
             Inl e \<Rightarrow> Inl e
           | Inr g \<Rightarrow> states_loop m gamma V s a rest (v + real k * g))
      | Inr (TF_Prob p_s) \<Rightarrow>
          (case get_value m gamma V s a next_s of
             Inl e \<Rightarrow> Inl e
           | Inr g \<Rightarrow> states_loop m gamma V s a rest (v + p_s * g)))"

definition update_value :: "mdp \<Rightarrow> real \<Rightarrow> real list \<Rightarrow> nat \<Rightarrow> nat \<Rightarrow> error + real" where
  "update_value m gamma V s a =
     (if transition_function_type m \<in> {S_DETERMINISTIC, SA_DETERMINISTIC} then
        (case model_transition_function m s a None of
           Inl e \<Rightarrow> Inl e
         | Inr (TF_State next_s) \<Rightarrow> get_value m gamma V s a next_s
         | Inr (TF_Items d) \<Rightarrow> Inl IndexError
         | Inr (TF_Prob p) \<Rightarrow> Inl IndexError)
      else if transition_function_type m \<in> {S_PROBABILISTIC, SA_PROBABILISTIC} then
        (case model_transition_function m s a None of
           Inl e \<Rightarrow> Inl e
         | Inr (TF_Items next_s_probs) \<Rightarrow> items_loop m gamma V s a next_s_probs 0
         | Inr (TF_State k) \<Rightarrow> Inl AttributeError
         | Inr (TF_Prob p) \<Rightarrow> Inl AttributeError)
      else states_loop m gamma V s a [0..<n_states m] 0)"

text \<open>
  The state of a solver: the arrays \<^verbatim>\<open>self._values\<close> and \<^verbatim>\<open>self._policy\<close>. The constructor
  (lines 25 to 30) fills both with zeros.
\<close>

record solver =
  self_values :: "real list"
  self_policy :: "nat list"

definition DeterministicMDPPolicy_init :: "mdp \<Rightarrow> solver" where
  "DeterministicMDPPolicy_init m =
     \<lparr>self_values = replicate (n_states m) 0, self_policy = replicate (n_states m) 0\<rparr>"

text \<open>
  The loop over the actions (lines 95 to 98 in \<^verbatim>\<open>ValueIteration.fit\<close>, and again lines 116
  to 119 in \<^verbatim>\<open>_update_policy\<close>): \<^verbatim>\<open>values = np.zeros(n_actions)\<close>, then
  \<^verbatim>\<open>values[a] = self._update_value(s, a)\<close> for each action.
\<close>

fun action_values_loop ::
  "mdp \<Rightarrow> real \<Rightarrow> real list \<Rightarrow> nat \<Rightarrow> nat list \<Rightarrow> real list \<Rightarrow> error + real list" where
  "action_values_loop m gamma V s [] vals = Inr vals"
| "action_values_loop m gamma V s (a # as) vals =
     (case update_value m gamma V s a of
        Inl e \<Rightarrow> Inl e
      | Inr va \<Rightarrow>
          (case setitem vals a va of
             Inl e \<Rightarrow> Inl e
           | Inr vals' \<Rightarrow> action_values_loop m gamma V s as vals'))"

definition action_values :: "mdp \<Rightarrow> real \<Rightarrow> real list \<Rightarrow> nat \<Rightarrow> error + real list" where
  "action_values m gamma V s =
     action_values_loop m gamma V s [0..<n_actions m] (replicate (n_actions m) 0)"




text \<open>
  The loop is entered with \<open>delta = eps + 1\<close> (line 90), a sum of two floats. Whether the
  loop body runs at all depends on the rounding of this sum: a float \<open>eps\<close> of magnitude
  \<open>2\<^sup>5\<^sup>3\<close> or more absorbs the \<open>1\<close>, and then \<open>delta > eps\<close> is false at once. So this one
  sum is rounded as IEEE 754 does for a finite \<open>eps\<close>: to the nearest number with a
  \<open>53\<close>-bit significand, a tie going to the even significand. (A sum of a float and \<open>1\<close>
  neither overflows nor falls in the subnormal range.) The values and rewards that the
  sweeps compute stay real numbers.
\<close>

definition round_half_even :: "real \<Rightarrow> int" where
  "round_half_even y =
     (if y - of_int \<lfloor>y\<rfloor> < 1/2 then \<lfloor>y\<rfloor>
      else if y - of_int \<lfloor>y\<rfloor> > 1/2 then \<lfloor>y\<rfloor> + 1
      else if even \<lfloor>y\<rfloor> then \<lfloor>y\<rfloor> else \<lfloor>y\<rfloor> + 1)"

definition binary64 :: "real \<Rightarrow> real" where
  "binary64 x =
     (if x = 0 then 0
      else of_int (round_half_even (x / 2 powr (of_int \<lfloor>log 2 \<bar>x\<bar>\<rfloor> - 52)))
           * 2 powr (of_int \<lfloor>log 2 \<bar>x\<bar>\<rfloor> - 52))"


text \<open>
  \<^verbatim>\<open>PolicyIteration\<close>, lines 107 to 148. \<^verbatim>\<open>_policy_evaluation\<close> has no \<^verbatim>\<open>return\<close> statement:
  what it returns to its caller is Python's \<open>None\<close>, written \<open>None\<close> here, a Boolean
  \<open>b\<close> being \<open>Some b\<close>. \<^verbatim>\<open>not x\<close> is true for \<open>None\<close>. In \<^verbatim>\<open>fit\<close> (lines 144 to 148) the
  value of \<^verbatim>\<open>self._policy_improvement()\<close> is dropped and \<^verbatim>\<open>policy_stable\<close> is assigned the
  value of \<^verbatim>\<open>self._policy_evaluation()\<close>. The evaluation loop is entered with
  \<open>delta = eps + 1\<close> (line 124), rounded as in \<^verbatim>\<open>ValueIteration.fit\<close>.
\<close>

definition update_policy :: "mdp \<Rightarrow> real \<Rightarrow> real list \<Rightarrow> nat \<Rightarrow> error + nat" where
  "update_policy m gamma V s =
     (case action_values m gamma V s of
        Inl e \<Rightarrow> Inl e
      | Inr vals \<Rightarrow> np_argmax vals)"

fun policy_evaluation_loop ::
  "mdp \<Rightarrow> real \<Rightarrow> nat list \<Rightarrow> solver \<Rightarrow> real \<Rightarrow> error + solver \<times> real" where
  "policy_evaluation_loop m gamma [] st delta = Inr (st, delta)"
| "policy_evaluation_loop m gamma (s # ss) st delta =
     (case getitem (self_values st) s of
        Inl e \<Rightarrow> Inl e
      | Inr v \<Rightarrow>
     (case getitem (self_policy st) s of
        Inl e \<Rightarrow> Inl e
      | Inr a \<Rightarrow>
     (case update_value m gamma (self_values st) s a of
        Inl e \<Rightarrow> Inl e
      | Inr q \<Rightarrow>
     (case setitem (self_values st) s q of
        Inl e \<Rightarrow> Inl e
      | Inr V' \<Rightarrow>
          policy_evaluation_loop m gamma ss (st\<lparr>self_values := V'\<rparr>)
            (max delta \<bar>v - q\<bar>)))))"

partial_function (option) policy_evaluation_while ::
  "mdp \<Rightarrow> real \<Rightarrow> real \<Rightarrow> real \<Rightarrow> solver \<Rightarrow> (error + solver) option" where
  "policy_evaluation_while m gamma eps delta st =
     (if delta > eps then
        (case policy_evaluation_loop m gamma [0..<n_states m] st 0 of
           Inl e \<Rightarrow> Some (Inl e)
         | Inr (st', delta') \<Rightarrow> policy_evaluation_while m gamma eps delta' st')
      else Some (Inr st))"

definition policy_evaluation ::
  "mdp \<Rightarrow> real \<Rightarrow> real \<Rightarrow> solver \<Rightarrow> (error + solver \<times> bool option) option" where
  "policy_evaluation m gamma eps st =
     (case policy_evaluation_while m gamma eps (binary64 (eps + 1)) st of
        None \<Rightarrow> None
      | Some (Inl e) \<Rightarrow> Some (Inl e)
      | Some (Inr st') \<Rightarrow> Some (Inr (st', None)))"

fun policy_improvement_loop ::
  "mdp \<Rightarrow> real \<Rightarrow> nat list \<Rightarrow> solver \<Rightarrow> bool \<Rightarrow> error + solver \<times> bool" where
  "policy_improvement_loop m gamma [] st policy_stable = Inr (st, policy_stable)"
| "policy_improvement_loop m gamma (s # ss) st policy_stable =
     (case getitem (self_policy st) s of
        Inl e \<Rightarrow> Inl e
      | Inr a \<Rightarrow>
     (case update_policy m gamma (self_values st) s of
        Inl e \<Rightarrow> Inl e
      | Inr a' \<Rightarrow>
     (case setitem (self_policy st) s a' of
        Inl e \<Rightarrow> Inl e
      | Inr pol' \<Rightarrow>
          policy_improvement_loop m gamma ss (st\<lparr>self_policy := pol'\<rparr>)
            (if a' \<noteq> a then False else policy_stable))))"

definition policy_improvement :: "mdp \<Rightarrow> real \<Rightarrow> solver \<Rightarrow> error + solver \<times> bool" where
  "policy_improvement m gamma st = policy_improvement_loop m gamma [0..<n_states m] st True"

fun py_not :: "bool option \<Rightarrow> bool" where
  "py_not None = True"
| "py_not (Some b) = (\<not> b)"

partial_function (option) PI_while ::
  "mdp \<Rightarrow> real \<Rightarrow> real \<Rightarrow> bool option \<Rightarrow> solver \<Rightarrow> (error + solver) option" where
  "PI_while m gamma eps policy_stable st =
     (if py_not policy_stable then
        (case policy_improvement m gamma st of
           Inl e \<Rightarrow> Some (Inl e)
         | Inr (st1, improvement_stable) \<Rightarrow>
             (case policy_evaluation m gamma eps st1 of
                None \<Rightarrow> None
              | Some (Inl e) \<Rightarrow> Some (Inl e)
              | Some (Inr (st2, returned)) \<Rightarrow> PI_while m gamma eps returned st2))
      else Some (Inr st))"

definition PI_fit :: "mdp \<Rightarrow> real \<Rightarrow> real \<Rightarrow> solver \<Rightarrow> (error + solver) option" where
  "PI_fit m gamma eps st = PI_while m gamma eps (Some False) st"

section \<open>The data generator: \<^verbatim>\<open>create\<close> of \<^verbatim>\<open>data.py\<close>\<close>

text \<open>
  \<^verbatim>\<open>create\<close> drives a trained factory: the environment \<^verbatim>\<open>factory.model\<close>, the global
  generator behind \<^verbatim>\<open>np.random.random()\<close>, and the array \<^verbatim>\<open>policy\<close>. The environment and
  the generators are a world \<open>'w\<close> with the five operations \<^verbatim>\<open>create\<close> calls, each returning
  its result and the next world: \<^verbatim>\<open>reset(seed)\<close> (the \<open>info\<close> it also returns is only
  printed), \<^verbatim>\<open>step(action)\<close>, which may raise and otherwise returns the next state, the
  reward and the flags \<open>terminated\<close> and \<open>truncated\<close>, the attribute \<^verbatim>\<open>_current_state\<close>,
  \<^verbatim>\<open>np.random.random()\<close> and \<^verbatim>\<open>action_space.sample()\<close>. The directory handling, the
  construction and training of the factory (lines 40 to 61) and the three files written at
  the end are outside the model: \<^verbatim>\<open>create\<close> returns what it writes.
\<close>

record 'w env =
  model_reset :: "int \<Rightarrow> 'w \<Rightarrow> nat \<times> 'w"
  model_step :: "nat \<Rightarrow> 'w \<Rightarrow> error + (nat \<times> real \<times> bool \<times> bool) \<times> 'w"
  model_current_state :: "'w \<Rightarrow> nat"
  np_random_random :: "'w \<Rightarrow> real \<times> 'w"
  action_space_sample :: "'w \<Rightarrow> nat \<times> 'w"

text \<open>
  The expert rollout, lines 68 to 75, a loop over \<^verbatim>\<open>range(max_step)\<close> carrying \<open>state\<close>
  and \<open>target_return\<close>.
\<close>

fun expert_loop ::
  "'w env \<Rightarrow> nat list \<Rightarrow> nat list \<Rightarrow> nat \<Rightarrow> real \<Rightarrow> 'w \<Rightarrow> error + real \<times> 'w" where
  "expert_loop env policy [] state target_return w = Inr (target_return, w)"
| "expert_loop env policy (i # is) state target_return w =
     (case getitem policy state of
        Inl e \<Rightarrow> Inl e
      | Inr action \<Rightarrow>
     (case model_step env action w of
        Inl e \<Rightarrow> Inl e
      | Inr ((state', reward, terminated, truncated), w') \<Rightarrow>
          if terminated \<or> truncated then Inr (target_return + reward, w')
          else expert_loop env policy is state' (target_return + reward) w'))"

text \<open>
  One episode is the four lists \<^verbatim>\<open>[states, actions, rewards, times]\<close>. Beside them the
  model keeps, for every step, what line 108 prints when \<^verbatim>\<open>verbose\<close> is set (the player and
  the two flags) and the world in which the step began; none of this is written to
  \<^verbatim>\<open>data.json\<close>.
\<close>

record episode =
  ep_states :: "nat list"
  ep_actions :: "nat list"
  ep_rewards :: "real list"
  ep_times :: "nat list"

record 'w step_log =
  log_world :: 'w
  log_player :: string
  log_terminated :: bool
  log_truncated :: bool

text \<open>
Lines 94 to 99: who plays, and which action.
\<close>

definition choose_action ::
  "'w env \<Rightarrow> nat list \<Rightarrow> real \<Rightarrow> nat \<Rightarrow> 'w \<Rightarrow> error + string \<times> nat \<times> 'w" where
  "choose_action env policy random_play_p state w =
     (case np_random_random env w of
        (u, w1) \<Rightarrow>
          if u < random_play_p then
            (case action_space_sample env w1 of (action, w2) \<Rightarrow> Inr (''random'', action, w2))
          else
            (case getitem policy state of
               Inl e \<Rightarrow> Inl e
             | Inr action \<Rightarrow> Inr (''policy'', action, w1)))"

text \<open>
  The loop over \<^verbatim>\<open>range(max_step)\<close>, lines 93 to 110. The loop variable \<open>t\<close> is a local
  variable of \<^verbatim>\<open>create\<close>: it is unbound (\<open>None\<close>) until a first iteration assigns it, and
  keeps its last value after the loop.
\<close>

fun replay_loop ::
  "'w env \<Rightarrow> nat list \<Rightarrow> real \<Rightarrow> nat list \<Rightarrow> nat \<Rightarrow> episode \<Rightarrow> 'w step_log list \<Rightarrow> nat option
     \<Rightarrow> 'w \<Rightarrow> error + episode \<times> 'w step_log list \<times> nat option \<times> 'w" where
  "replay_loop env policy random_play_p [] state ep trace t w = Inr (ep, trace, t, w)"
| "replay_loop env policy random_play_p (t' # ts) state ep trace t w =
     (case choose_action env policy random_play_p state w of
        Inl e \<Rightarrow> Inl e
      | Inr (player, action, w2) \<Rightarrow>
     (case model_step env action w2 of
        Inl e \<Rightarrow> Inl e
      | Inr ((next_state, reward, terminated, truncated), w3) \<Rightarrow>
          (let ep' = \<lparr>ep_states = ep_states ep @ [state],
                      ep_actions = ep_actions ep @ [action],
                      ep_rewards = ep_rewards ep @ [reward],
                      ep_times = ep_times ep @ [t']\<rparr>;
               trace' = trace @ [\<lparr>log_world = w, log_player = player,
                                   log_terminated = terminated,
                                   log_truncated = truncated\<rparr>]
           in if terminated \<or> truncated then Inr (ep', trace', Some t', w3)
              else replay_loop env policy random_play_p ts next_state ep' trace' (Some t') w3)))"

text \<open>
  The loop over \<^verbatim>\<open>range(n_replay)\<close>, lines 81 to 118. Lines 112 to 115 read \<open>t\<close>; reading an
  unbound local variable raises \<^verbatim>\<open>UnboundLocalError\<close>.
\<close>

record 'w replays =
  data :: "episode list"
  traces :: "'w step_log list list"
  data_min_step :: nat
  data_max_step :: nat
  loop_t :: "nat option"
  world :: 'w

fun replays_loop ::
  "'w env \<Rightarrow> nat list \<Rightarrow> real \<Rightarrow> int \<Rightarrow> nat \<Rightarrow> nat list \<Rightarrow> 'w replays \<Rightarrow> error + 'w replays" where
  "replays_loop env policy random_play_p seed max_step [] acc = Inr acc"
| "replays_loop env policy random_play_p seed max_step (i # is) acc =
     (case model_reset env seed (world acc) of
        (state0, w1) \<Rightarrow>
     (case replay_loop env policy random_play_p [0..<max_step] (model_current_state env w1)
             \<lparr>ep_states = [], ep_actions = [], ep_rewards = [], ep_times = []\<rparr> []
             (loop_t acc) w1 of
        Inl e \<Rightarrow> Inl e
      | Inr (ep, trace, t, w2) \<Rightarrow>
     (case t of
        None \<Rightarrow> Inl UnboundLocalError
      | Some tv \<Rightarrow>
          replays_loop env policy random_play_p seed max_step is
            \<lparr>data = data acc @ [ep],
             traces = traces acc @ [trace],
             data_min_step = (if tv < data_min_step acc then tv else data_min_step acc),
             data_max_step = (if tv > data_max_step acc then tv else data_max_step acc),
             loop_t = Some tv,
             world = w2\<rparr>)))"

text \<open>
  \<^verbatim>\<open>create\<close> from line 63 on. The result holds the computed fields of \<^verbatim>\<open>metadata.json\<close>
  (the other fields repeat arguments), the content of \<^verbatim>\<open>data.json\<close>, and the step logs.
\<close>

record 'w created =
  target_return :: real
  meta_data_min_step :: nat
  meta_data_max_step :: nat
  meta_n_replay :: nat
  data_json :: "episode list"
  step_traces :: "'w step_log list list"

definition create ::
  "'w env \<Rightarrow> nat list \<Rightarrow> nat \<Rightarrow> nat \<Rightarrow> real \<Rightarrow> int \<Rightarrow> 'w \<Rightarrow> error + 'w created" where
  "create env policy n_replay max_step random_play_p seed w =
     (case model_reset env seed w of
        (state, w0) \<Rightarrow>
     (case expert_loop env policy [0..<max_step] state 0 w0 of
        Inl e \<Rightarrow> Inl e
      | Inr (target, w1) \<Rightarrow>
     (case replays_loop env policy random_play_p seed max_step [0..<n_replay]
             \<lparr>data = [], traces = [], data_min_step = max_step, data_max_step = 0,
              loop_t = None, world = w1\<rparr> of
        Inl e \<Rightarrow> Inl e
      | Inr acc \<Rightarrow>
          Inr \<lparr>target_return = target,
               meta_data_min_step = data_min_step acc,
               meta_data_max_step = data_max_step acc,
               meta_n_replay = n_replay,
               data_json = data acc,
               step_traces = traces acc\<rparr>)))"

section \<open>Notions used to state the results\<close>

subsection \<open>The action value\<close>

text \<open>
  \<open>P(s' | s, a)\<close> as a list of successors with their probabilities: the single successor
  with probability \<open>1\<close> for a deterministic kind, the items of the dictionary for a
  probabilistic kind, one entry for each state in order for the kind \<open>SAS\<close>.
\<close>

definition transition_law :: "mdp \<Rightarrow> nat \<Rightarrow> nat \<Rightarrow> (nat \<times> real) list \<Rightarrow> bool" where
  "transition_law m s a succs =
     (if transition_function_type m \<in> {S_DETERMINISTIC, SA_DETERMINISTIC} then
        (case model_transition_function m s a None of
           Inr (TF_State next_s) \<Rightarrow> succs = [(next_s, 1)]
         | _ \<Rightarrow> False)
      else if transition_function_type m \<in> {S_PROBABILISTIC, SA_PROBABILISTIC} then
        model_transition_function m s a None = Inr (TF_Items succs)
      else
        map fst succs = [0..<n_states m]
        \<and> list_all (\<lambda>(next_s, p). model_transition_function m s a (Some next_s) = Inr (TF_Prob p))
             succs)"

text \<open>
  \<open>P(r | s, a, s')\<close> as a list of rewards with their probabilities: the scalar reward with
  probability \<open>1\<close> for the kinds other than \<open>SASR\<close>, one entry for each reward value in
  order for \<open>SASR\<close>.
\<close>

definition reward_law :: "mdp \<Rightarrow> nat \<Rightarrow> nat \<Rightarrow> nat \<Rightarrow> (real \<times> real) list \<Rightarrow> bool" where
  "reward_law m s a next_s rs =
     (if reward_function_type m \<noteq> R_SASR then
        (case model_reward_function m s a next_s None of
           Inr r \<Rightarrow> rs = [(r, 1)]
         | Inl e \<Rightarrow> False)
      else
        map fst rs = model_all_rewards m
        \<and> list_all (\<lambda>(r, q). model_reward_function m s a next_s (Some r) = Inr q) rs)"

text \<open>
The two sums of the formula for \<open>Q(s, a)\<close>.
\<close>

definition Q_inner :: "real \<Rightarrow> real list \<Rightarrow> nat \<Rightarrow> (real \<times> real) list \<Rightarrow> real" where
  "Q_inner gamma V next_s rs = (\<Sum>(r, q) \<leftarrow> rs. q * (r + gamma * V ! next_s))"

definition Q_formula ::
  "real \<Rightarrow> real list \<Rightarrow> (nat \<times> real) list \<Rightarrow> (nat \<Rightarrow> (real \<times> real) list) \<Rightarrow> real" where
  "Q_formula gamma V succs rews =
     (\<Sum>(next_s, p) \<leftarrow> succs. p * Q_inner gamma V next_s (rews next_s))"

subsection \<open>Value iteration\<close>

text \<open>
  \<open>a\<close> is the position of the maximum of \<open>vals\<close>, the lowest one when the maximum occurs
  more than once.
\<close>

definition first_argmax :: "real list \<Rightarrow> nat \<Rightarrow> bool" where
  "first_argmax vals a =
     (a < length vals \<and> vals ! a = Max (set vals) \<and> (\<forall>j<a. vals ! j < vals ! a))"









subsection \<open>Rollouts\<close>

text \<open>
  The steps of one replay as a list, one record for each step taken; the loop of
  \<^verbatim>\<open>create\<close> appends the fields of these records to its four lists.
\<close>

record 'w step_rec =
  rec_state :: nat
  rec_action :: nat
  rec_reward :: real
  rec_time :: nat
  rec_log :: "'w step_log"

fun replay_steps ::
  "'w env \<Rightarrow> nat list \<Rightarrow> real \<Rightarrow> nat list \<Rightarrow> nat \<Rightarrow> 'w \<Rightarrow> error + 'w step_rec list \<times> 'w" where
  "replay_steps env policy random_play_p [] state w = Inr ([], w)"
| "replay_steps env policy random_play_p (t' # ts) state w =
     (case choose_action env policy random_play_p state w of
        Inl e \<Rightarrow> Inl e
      | Inr (player, action, w2) \<Rightarrow>
     (case model_step env action w2 of
        Inl e \<Rightarrow> Inl e
      | Inr ((next_state, reward, terminated, truncated), w3) \<Rightarrow>
          (let x = \<lparr>rec_state = state, rec_action = action, rec_reward = reward, rec_time = t',
                    rec_log = \<lparr>log_world = w, log_player = player,
                               log_terminated = terminated, log_truncated = truncated\<rparr>\<rparr>
           in if terminated \<or> truncated then Inr ([x], w3)
              else (case replay_steps env policy random_play_p ts next_state w3 of
                      Inl e \<Rightarrow> Inl e
                    | Inr (xs, w') \<Rightarrow> Inr (x # xs, w')))))"

definition record_steps :: "episode \<Rightarrow> 'w step_rec list \<Rightarrow> episode" where
  "record_steps ep xs =
     \<lparr>ep_states = ep_states ep @ map rec_state xs,
      ep_actions = ep_actions ep @ map rec_action xs,
      ep_rewards = ep_rewards ep @ map rec_reward xs,
      ep_times = ep_times ep @ map rec_time xs\<rparr>"

text \<open>
  An episode and its step log are a replay when they are the steps taken from the world
  that \<^verbatim>\<open>reset(seed)\<close> returns in some world, starting at its \<^verbatim>\<open>_current_state\<close>.
\<close>

definition replay_of ::
  "'w env \<Rightarrow> nat list \<Rightarrow> real \<Rightarrow> int \<Rightarrow> nat \<Rightarrow> episode \<Rightarrow> 'w step_log list \<Rightarrow> bool" where
  "replay_of env policy p seed max_step ep trace =
     (\<exists>w xs w'.
        replay_steps env policy p [0..<max_step]
          (model_current_state env (snd (model_reset env seed w)))
          (snd (model_reset env seed w)) = Inr (xs, w')
        \<and> ep = record_steps \<lparr>ep_states = [], ep_actions = [], ep_rewards = [], ep_times = []\<rparr> xs
        \<and> trace = map rec_log xs)"

text \<open>
  The shape of a recorded episode: four lists of one length, at most \<open>max_step\<close>, the
  times counting from \<open>0\<close>; a terminated step is the last one; an episode shorter than
  \<open>max_step\<close> ends with a terminated or truncated step.
\<close>

definition well_recorded :: "nat \<Rightarrow> episode \<Rightarrow> 'w step_log list \<Rightarrow> bool" where
  "well_recorded max_step ep trace =
     (length (ep_states ep) = length (ep_times ep)
      \<and> length (ep_actions ep) = length (ep_times ep)
      \<and> length (ep_rewards ep) = length (ep_times ep)
      \<and> length trace = length (ep_times ep)
      \<and> ep_times ep = [0..<length (ep_times ep)]
      \<and> length (ep_times ep) \<le> max_step
      \<and> (\<forall>k<length trace. log_terminated (trace ! k) \<longrightarrow> length (ep_times ep) = k + 1)
      \<and> (length (ep_times ep) < max_step \<longrightarrow>
            trace \<noteq> [] \<and> (log_terminated (last trace) \<or> log_truncated (last trace))))"

text \<open>
  An environment on which \<^verbatim>\<open>create\<close> cannot raise: \<^verbatim>\<open>step\<close> never raises, and every state
  that \<^verbatim>\<open>reset(seed)\<close> and \<^verbatim>\<open>step\<close> produce is an index of \<open>policy\<close>.
\<close>

definition env_total :: "'w env \<Rightarrow> nat list \<Rightarrow> int \<Rightarrow> bool" where
  "env_total env policy seed =
     ((\<forall>a w. case model_step env a w of
                Inl e \<Rightarrow> False
              | Inr ((state', reward, terminated, truncated), w') \<Rightarrow> state' < length policy)
      \<and> (\<forall>w. fst (model_reset env seed w) < length policy
             \<and> model_current_state env (snd (model_reset env seed w)) < length policy))"

text \<open>
Where the action of a step comes from.
\<close>

definition step_by_policy :: "nat list \<Rightarrow> 'w step_rec \<Rightarrow> bool" where
  "step_by_policy policy x =
     (log_player (rec_log x) = ''policy'' \<and> rec_state x < length policy
      \<and> rec_action x = policy ! rec_state x)"

definition step_by_sampler :: "'w env \<Rightarrow> 'w step_rec \<Rightarrow> bool" where
  "step_by_sampler env x =
     (log_player (rec_log x) = ''random''
      \<and> rec_action x
          = fst (action_space_sample env (snd (np_random_random env (log_world (rec_log x))))))"

text \<open>
  The world in which \<^verbatim>\<open>step\<close> is called in an iteration that began in the logged world:
  \<^verbatim>\<open>np.random.random()\<close> has been called, and \<^verbatim>\<open>action_space.sample()\<close> after it when the
  player is \<^verbatim>\<open>random\<close>.
\<close>

definition step_world :: "'w env \<Rightarrow> 'w step_log \<Rightarrow> 'w" where
  "step_world env l =
     (if log_player l = ''random''
      then snd (action_space_sample env (snd (np_random_random env (log_world l))))
      else snd (np_random_random env (log_world l)))"

text \<open>
  An episode follows the environment: at every step \<open>k\<close>, \<^verbatim>\<open>step\<close> called with the recorded
  action returns the recorded reward and the logged flags, and the state recorded at step
  \<open>k + 1\<close> and the world in which that step begins are the state and the world this call
  returns.
\<close>

definition replay_chain :: "'w env \<Rightarrow> episode \<Rightarrow> 'w step_log list \<Rightarrow> bool" where
  "replay_chain env ep trace =
     (\<forall>k<length trace.
        case model_step env (ep_actions ep ! k) (step_world env (trace ! k)) of
          Inl e \<Rightarrow> False
        | Inr ((state', reward, terminated, truncated), w') \<Rightarrow>
            ep_rewards ep ! k = reward
            \<and> log_terminated (trace ! k) = terminated
            \<and> log_truncated (trace ! k) = truncated
            \<and> (Suc k < length trace \<longrightarrow>
                  ep_states ep ! Suc k = state' \<and> log_world (trace ! Suc k) = w'))"

text \<open>
  The expert rollout as a list of steps: from a state and a world, take \<open>policy[state]\<close>,
  step, and go on from the state and world returned unless the step is terminated or
  truncated or the steps are used up. \<open>rollout_chain\<close> says this of a list of steps.
\<close>

record 'w rollout_step =
  ro_world :: 'w
  ro_state :: nat
  ro_action :: nat
  ro_reward :: real
  ro_terminated :: bool
  ro_truncated :: bool

fun expert_rollout ::
  "'w env \<Rightarrow> nat list \<Rightarrow> nat list \<Rightarrow> nat \<Rightarrow> 'w \<Rightarrow> 'w rollout_step list" where
  "expert_rollout env policy [] state w = []"
| "expert_rollout env policy (i # is) state w =
     (case getitem policy state of
        Inl e \<Rightarrow> []
      | Inr action \<Rightarrow>
     (case model_step env action w of
        Inl e \<Rightarrow> []
      | Inr ((state', reward, terminated, truncated), w') \<Rightarrow>
          \<lparr>ro_world = w, ro_state = state, ro_action = action, ro_reward = reward,
           ro_terminated = terminated, ro_truncated = truncated\<rparr>
          # (if terminated \<or> truncated then [] else expert_rollout env policy is state' w')))"

definition rollout_chain :: "'w env \<Rightarrow> nat list \<Rightarrow> 'w rollout_step list \<Rightarrow> bool" where
  "rollout_chain env policy xs =
     (\<forall>j<length xs.
        ro_state (xs ! j) < length policy
        \<and> ro_action (xs ! j) = policy ! ro_state (xs ! j)
        \<and> (case model_step env (ro_action (xs ! j)) (ro_world (xs ! j)) of
             Inl e \<Rightarrow> False
           | Inr ((state', reward, terminated, truncated), w') \<Rightarrow>
               ro_reward (xs ! j) = reward
               \<and> ro_terminated (xs ! j) = terminated
               \<and> ro_truncated (xs ! j) = truncated
               \<and> (Suc j < length xs \<longrightarrow>
                     \<not> terminated \<and> \<not> truncated
                     \<and> ro_state (xs ! Suc j) = state' \<and> ro_world (xs ! Suc j) = w')))"

definition expert_trace :: "'w env \<Rightarrow> nat list \<Rightarrow> nat \<Rightarrow> int \<Rightarrow> 'w \<Rightarrow> 'w rollout_step list" where
  "expert_trace env policy max_step seed w =
     expert_rollout env policy [0..<max_step]
       (fst (model_reset env seed w)) (snd (model_reset env seed w))"

section \<open>Example models\<close>

text \<open>
  Two states, one action; every state goes to either state with probability \<open>1/2\<close>, and the
  reward is \<open>0\<close> with probability \<open>1/4\<close> and \<open>1\<close> with probability \<open>3/4\<close>.
\<close>

definition example_mdp_stochastic :: mdp where
  "example_mdp_stochastic =
     \<lparr>n_states = 2, n_actions = 1,
      transition_function_type = SA_PROBABILISTIC,
      reward_function_type = R_SASR,
      model_transition_function = (\<lambda>s a next_s. Inr (TF_Items [(0, 1/2), (1, 1/2)])),
      model_reward_function = (\<lambda>s a next_s r. if r = Some 1 then Inr (3/4) else Inr (1/4)),
      model_all_rewards = [0, 1]\<rparr>"





text \<open>
One state, two actions, no reward.
\<close>

definition example_mdp_zero :: mdp where
  "example_mdp_zero =
     \<lparr>n_states = 1, n_actions = 2,
      transition_function_type = S_DETERMINISTIC,
      reward_function_type = R_S,
      model_transition_function = (\<lambda>s a next_s. Inr (TF_State 0)),
      model_reward_function = (\<lambda>s a next_s r. Inr 0),
      model_all_rewards = [0, 1]\<rparr>"

text \<open>
  An environment with three states; the world is the current state and a counter advanced
  by each random draw. \<^verbatim>\<open>reset\<close> derives the state from the seed, a step from \<open>s\<close> with
  action \<open>a\<close> goes to \<open>(s + a + 1) mod 3\<close>, earns that number and terminates in state
  \<open>2\<close>. Below it, what \<^verbatim>\<open>create\<close> returns on it for the policy \<open>[0, 0, 0]\<close> and
  \<open>random_play_p\<close> equal to \<open>1/2\<close>, \<open>0\<close> and \<open>1\<close>, and for the policy \<open>[0, 1, 0]\<close> and
  \<open>random_play_p = 0\<close>.
\<close>

definition example_env :: "(nat \<times> nat) env" where
  "example_env =
     \<lparr>model_reset = (\<lambda>seed (s, c). (nat seed mod 3, (nat seed mod 3, c))),
      model_step = (\<lambda>a (s, c).
         Inr (((s + a + 1) mod 3, real ((s + a + 1) mod 3), (s + a + 1) mod 3 = 2, False),
              ((s + a + 1) mod 3, c))),
      model_current_state = (\<lambda>(s, c). s),
      np_random_random = (\<lambda>(s, c). (if c mod 4 = 0 then 1/4 else 3/4, (s, c + 1))),
      action_space_sample = (\<lambda>(s, c). (c mod 2, (s, c + 1)))\<rparr>"

definition example_mixed :: "(nat \<times> nat) created" where
  "example_mixed =
     \<lparr>target_return = 3, meta_data_min_step = 0, meta_data_max_step = 1, meta_n_replay = 2,
      data_json =
        [\<lparr>ep_states = [0], ep_actions = [1], ep_rewards = [2], ep_times = [0]\<rparr>,
         \<lparr>ep_states = [0, 1], ep_actions = [0, 0], ep_rewards = [1, 2], ep_times = [0, 1]\<rparr>],
      step_traces =
        [ [\<lparr>log_world = (0, 0), log_player = ''random'',
           log_terminated = True, log_truncated = False\<rparr>],
         [\<lparr>log_world = (0, 2), log_player = ''policy'',
           log_terminated = False, log_truncated = False\<rparr>,
          \<lparr>log_world = (1, 3), log_player = ''policy'',
           log_terminated = True, log_truncated = False\<rparr>] ]\<rparr>"

definition example_expert :: "(nat \<times> nat) created" where
  "example_expert =
     \<lparr>target_return = 3, meta_data_min_step = 1, meta_data_max_step = 1, meta_n_replay = 2,
      data_json =
        [\<lparr>ep_states = [0, 1], ep_actions = [0, 0], ep_rewards = [1, 2], ep_times = [0, 1]\<rparr>,
         \<lparr>ep_states = [0, 1], ep_actions = [0, 0], ep_rewards = [1, 2], ep_times = [0, 1]\<rparr>],
      step_traces =
        [ [\<lparr>log_world = (0, 0), log_player = ''policy'',
           log_terminated = False, log_truncated = False\<rparr>,
          \<lparr>log_world = (1, 1), log_player = ''policy'',
           log_terminated = True, log_truncated = False\<rparr>],
         [\<lparr>log_world = (0, 2), log_player = ''policy'',
           log_terminated = False, log_truncated = False\<rparr>,
          \<lparr>log_world = (1, 3), log_player = ''policy'',
           log_terminated = True, log_truncated = False\<rparr>] ]\<rparr>"

definition example_random :: "(nat \<times> nat) created" where
  "example_random =
     \<lparr>target_return = 3, meta_data_min_step = 0, meta_data_max_step = 0, meta_n_replay = 2,
      data_json =
        [\<lparr>ep_states = [0], ep_actions = [1], ep_rewards = [2], ep_times = [0]\<rparr>,
         \<lparr>ep_states = [0], ep_actions = [1], ep_rewards = [2], ep_times = [0]\<rparr>],
      step_traces =
        [ [\<lparr>log_world = (0, 0), log_player = ''random'',
           log_terminated = True, log_truncated = False\<rparr>],
         [\<lparr>log_world = (0, 2), log_player = ''random'',
           log_terminated = True, log_truncated = False\<rparr>] ]\<rparr>"

definition example_alternating :: "(nat \<times> nat) created" where
  "example_alternating =
     \<lparr>target_return = 3, meta_data_min_step = 4, meta_data_max_step = 4, meta_n_replay = 2,
      data_json =
        [\<lparr>ep_states = [0, 1, 0, 1, 0], ep_actions = [0, 1, 0, 1, 0],
          ep_rewards = [1, 0, 1, 0, 1], ep_times = [0, 1, 2, 3, 4]\<rparr>,
         \<lparr>ep_states = [0, 1, 0, 1, 0], ep_actions = [0, 1, 0, 1, 0],
          ep_rewards = [1, 0, 1, 0, 1], ep_times = [0, 1, 2, 3, 4]\<rparr>],
      step_traces =
        [ [\<lparr>log_world = (0, 0), log_player = ''policy'',
           log_terminated = False, log_truncated = False\<rparr>,
          \<lparr>log_world = (1, 1), log_player = ''policy'',
           log_terminated = False, log_truncated = False\<rparr>,
          \<lparr>log_world = (0, 2), log_player = ''policy'',
           log_terminated = False, log_truncated = False\<rparr>,
          \<lparr>log_world = (1, 3), log_player = ''policy'',
           log_terminated = False, log_truncated = False\<rparr>,
          \<lparr>log_world = (0, 4), log_player = ''policy'',
           log_terminated = False, log_truncated = False\<rparr>],
         [\<lparr>log_world = (0, 5), log_player = ''policy'',
           log_terminated = False, log_truncated = False\<rparr>,
          \<lparr>log_world = (1, 6), log_player = ''policy'',
           log_terminated = False, log_truncated = False\<rparr>,
          \<lparr>log_world = (0, 7), log_player = ''policy'',
           log_terminated = False, log_truncated = False\<rparr>,
          \<lparr>log_world = (1, 8), log_player = ''policy'',
           log_terminated = False, log_truncated = False\<rparr>,
          \<lparr>log_world = (0, 9), log_player = ''policy'',
           log_terminated = False, log_truncated = False\<rparr>] ]\<rparr>"

section \<open>Results about the factory\<close>

lemma np_arange_length: "length (np_arange start stop) = nat (stop - start)"
  by (simp add: np_arange_def)

lemma np_arange_nth: "k < nat (stop - start) \<Longrightarrow> np_arange start stop ! k = start + int k"
  by (simp add: np_arange_def)

lemma np_arange_upto: "np_arange start stop = [start..stop - 1]"
proof (rule nth_equalityI)
  show "length (np_arange start stop) = length [start..stop - 1]"
    by (simp add: np_arange_length)
next
  fix k assume "k < length (np_arange start stop)"
  then have k: "k < nat (stop - start)" by (simp add: np_arange_length)
  then have "start + int k \<le> stop - 1" by linarith
  then show "np_arange start stop ! k = [start..stop - 1] ! k"
    using k by (simp add: np_arange_nth)
qed

text \<open>
  Claim C7. For every \<open>n_rewards \<ge> 2\<close> the array of reward values holds exactly
  \<open>n_rewards\<close> values, the integers \<open>-n_rewards + 2, -n_rewards + 3, ..., 1\<close> in increasing
  order: its \<open>k\<close>-th entry is \<open>-n_rewards + 2 + k\<close>, its last entry is \<open>1\<close>.
\<close>

theorem all_rewards_values:
  assumes "2 \<le> n_rewards"
  shows "length (all_rewards n_rewards) = nat n_rewards
       \<and> all_rewards n_rewards = [- n_rewards + 2..1]
       \<and> (\<forall>k < nat n_rewards. all_rewards n_rewards ! k = - n_rewards + 2 + int k)
       \<and> last (all_rewards n_rewards) = 1
       \<and> sorted_wrt (<) (all_rewards n_rewards)"
proof -
  have len: "length (all_rewards n_rewards) = nat n_rewards"
    using assms by (simp add: all_rewards_def np_arange_length)
  have upto: "all_rewards n_rewards = [- n_rewards + 2..1]"
    by (simp add: all_rewards_def np_arange_upto)
  have nth: "\<forall>k < nat n_rewards. all_rewards n_rewards ! k = - n_rewards + 2 + int k"
    using assms by (simp add: all_rewards_def np_arange_nth)
  have ne: "all_rewards n_rewards \<noteq> []"
    using len assms by auto
  have "last (all_rewards n_rewards) = all_rewards n_rewards ! (nat n_rewards - 1)"
    using ne len by (simp add: last_conv_nth)
  also have "\<dots> = - n_rewards + 2 + int (nat n_rewards - 1)"
    using nth assms by simp
  also have "\<dots> = 1"
    using assms by simp
  finally have lst: "last (all_rewards n_rewards) = 1" .
  have srt: "sorted_wrt (<) (all_rewards n_rewards)"
    unfolding sorted_wrt_iff_nth_less using nth len by simp
  show ?thesis using len upto nth lst srt by blast
qed

theorem all_rewards_values_witness:
  "(2::int) \<le> 4 \<and> length (all_rewards 4) = 4 \<and> all_rewards 4 = [-2, -1, 0, 1]"
proof -
  have h: "(2::int) \<le> 4" by simp
  have "all_rewards 4 = [-2, -1, 0, 1]"
    by (simp add: all_rewards_def np_arange_def upt_rec)
  then show ?thesis using all_rewards_values [OF h] by simp
qed

text \<open>
  Claim C8. For the kinds \<open>S_DETERMINISTIC\<close> and \<open>S_PROBABILISTIC\<close> the factory's
  \<^verbatim>\<open>transition_function\<close> does not depend on its action argument: two calls that differ
  only in the action return the same result (the same value or the same exception).
\<close>

theorem transition_function_ignores_action:
  assumes "kind = S_DETERMINISTIC
         \<or> kind = S_PROBABILISTIC"
  shows "transition_function kind transitions s a next_s
       = transition_function kind transitions s a' next_s"
  using assms by (auto simp: transition_function_def)

theorem transition_function_ignores_action_witness:
  "transition_function S_PROBABILISTIC
       (Array [Array [Scalar (1/4), Scalar (3/4)], Array [Scalar 1, Scalar (0::real)]])
       1 0 None
   = Inr (TF_Dict [(0, Scalar 1), (1, Scalar 0)])
 \<and> transition_function S_PROBABILISTIC
       (Array [Array [Scalar (1/4), Scalar (3/4)], Array [Scalar 1, Scalar (0::real)]])
       1 0 None
   = transition_function S_PROBABILISTIC
       (Array [Array [Scalar (1/4), Scalar (3/4)], Array [Scalar 1, Scalar (0::real)]])
       1 1 None"
proof -
  let ?T = "Array [Array [Scalar (1/4), Scalar (3/4)], Array [Scalar 1, Scalar (0::real)]]"
  have h: "S_PROBABILISTIC = S_DETERMINISTIC \<or> S_PROBABILISTIC = S_PROBABILISTIC"
    by simp
  have e: "transition_function S_PROBABILISTIC ?T 1 0 None
         = Inr (TF_Dict [(0, Scalar 1), (1, Scalar 0)])"
    by (simp add: transition_function_def upt_rec)
  have "transition_function S_PROBABILISTIC ?T 1 0 None
      = transition_function S_PROBABILISTIC ?T 1 1 None"
    by (rule transition_function_ignores_action [OF h])
  with e show ?thesis by simp
qed

text \<open>
  Claim C4 is about the \<open>SAS\<close> branch of \<^verbatim>\<open>reward_function\<close>, which should return the
  entry \<open>(s, a, next_s)\<close> of the reward table. Line 69 reads \<^verbatim>\<open>self.rewards[s, a, s]\<close>: on
  the table of two states and one action with \<open>rewards[0, 0, 0] = 0\<close> and
  \<open>rewards[0, 0, 1] = 1\<close>, the call for \<open>(s, a, next_s) = (0, 0, 1)\<close> returns \<open>0\<close>, the
  entry \<open>(0, 0, 0)\<close>, and not the entry \<open>(0, 0, 1)\<close>, which is \<open>1\<close>.
\<close>

theorem reward_function_SAS_reads_s_a_s:
  "reward_function R_SAS
       (Array [Array [Array [Scalar (0::int), Scalar 1]],
               Array [Array [Scalar 0, Scalar 1]]])
       (all_rewards 2) 0 0 1 None
   = Inr (Scalar 0)
 \<and> nd_index
       (Array [Array [Array [Scalar (0::int), Scalar 1]],
               Array [Array [Scalar 0, Scalar 1]]])
       [0, 0, 1]
   = Inr (Scalar 1)"
  by (simp add: reward_function_def)

section \<open>Results about the solvers\<close>

subsection \<open>Rounding\<close>

lemma round_half_even_bounds:
  "y - 1/2 \<le> of_int (round_half_even y) \<and> of_int (round_half_even y) \<le> y + 1/2"
proof -
  have lo: "of_int \<lfloor>y\<rfloor> \<le> y" and hi: "y < of_int \<lfloor>y\<rfloor> + 1" by linarith+
  consider "y - of_int \<lfloor>y\<rfloor> < 1/2" | "y - of_int \<lfloor>y\<rfloor> > 1/2" | "y - of_int \<lfloor>y\<rfloor> = 1/2"
    by linarith
  then show ?thesis
  proof cases
    case 1
    then have r: "round_half_even y = \<lfloor>y\<rfloor>" by (simp add: round_half_even_def)
    show ?thesis unfolding r using 1 lo by linarith
  next
    case 2
    then have r: "round_half_even y = \<lfloor>y\<rfloor> + 1" by (simp add: round_half_even_def)
    have "of_int (\<lfloor>y\<rfloor> + 1) = (of_int \<lfloor>y\<rfloor> + 1 :: real)" by simp
    then show ?thesis unfolding r using 2 hi by linarith
  next
    case 3
    then have "round_half_even y = \<lfloor>y\<rfloor> \<or> round_half_even y = \<lfloor>y\<rfloor> + 1"
      by (simp add: round_half_even_def)
    moreover have "of_int (\<lfloor>y\<rfloor> + 1) = (of_int \<lfloor>y\<rfloor> + 1 :: real)" by simp
    ultimately show ?thesis using 3 by (elim disjE) (simp only:, linarith)+
  qed
qed


lemma binary64_close:
  assumes "0 < x" and "x < 2 ^ 53"
  shows "x - 1/2 \<le> binary64 x"
proof -
  let ?e = "\<lfloor>log 2 \<bar>x\<bar>\<rfloor>"
  let ?u = "(2::real) powr (of_int ?e - 52)"
  have "log 2 x < 53"
    using assms by (simp add: log_less_iff)
  then have "?e \<le> 52" using assms(1) by (simp add: floor_le_iff)
  then have "of_int ?e - 52 \<le> (0::real)" by simp
  then have "?u \<le> 2 powr 0" by (intro powr_mono) simp_all
  then have u1: "?u \<le> 1" by simp
  have u0: "0 < ?u" by simp
  let ?r = "of_int (round_half_even (x / ?u)) :: real"
  from round_half_even_bounds [of "x / ?u"]
  have A: "x / ?u - 1/2 \<le> ?r" by simp
  have B: "(x / ?u - 1/2) * ?u \<le> ?r * ?u"
    using A u0 by (intro mult_right_mono) simp_all
  have C: "(x / ?u - 1/2) * ?u = x - ?u / 2"
    using u0 by (simp add: field_simps)
  have D: "binary64 x = ?r * ?u"
    using assms(1) by (simp add: binary64_def)
  from B have "x - ?u / 2 \<le> ?r * ?u" by (simp only: C)
  then have "x - ?u / 2 \<le> binary64 x" by (simp only: D)
  with u1 show ?thesis by linarith
qed

lemma binary64_entry:
  assumes "0 \<le> eps" and "eps + 1 < 2 ^ 53"
  shows "eps < binary64 (eps + 1)"
  using binary64_close [of "eps + 1"] assms by linarith


subsection \<open>The action value\<close>

lemma get_value_loop_sum:
  assumes "next_s < length V"
      and "list_all (\<lambda>(r, q). model_reward_function m s a next_s (Some r) = Inr q) rs"
  shows "get_value_loop m gamma V s a next_s (map fst rs) v
       = Inr (v + Q_inner gamma V next_s rs)"
  using assms(2)
proof (induction rs arbitrary: v)
  case Nil
  then show ?case by (simp add: Q_inner_def)
next
  case (Cons x rs)
  obtain r q where x: "x = (r, q)" by (cases x)
  from Cons.prems x have rf: "model_reward_function m s a next_s (Some r) = Inr q"
    and rest: "list_all (\<lambda>(r, q). model_reward_function m s a next_s (Some r) = Inr q) rs"
    by simp_all
  have "get_value_loop m gamma V s a next_s (map fst (x # rs)) v
      = get_value_loop m gamma V s a next_s (map fst rs) (v + q * (r + gamma * V ! next_s))"
    using x rf assms(1) by (simp add: getitem_def)
  also have "\<dots> = Inr (v + q * (r + gamma * V ! next_s) + Q_inner gamma V next_s rs)"
    by (rule Cons.IH [OF rest])
  finally show ?case using x by (simp add: Q_inner_def)
qed

lemma get_value_inner:
  assumes "next_s < length V" and "reward_law m s a next_s rs"
  shows "get_value m gamma V s a next_s = Inr (Q_inner gamma V next_s rs)"
proof (cases "reward_function_type m = R_SASR")
  case True
  with assms(2) have fst: "map fst rs = model_all_rewards m"
    and all: "list_all (\<lambda>(r, q). model_reward_function m s a next_s (Some r) = Inr q) rs"
    by (simp_all add: reward_law_def)
  show ?thesis
    using True get_value_loop_sum [OF assms(1) all, of gamma 0] fst
    by (simp add: get_value_def)
next
  case False
  with assms(2) obtain r where "model_reward_function m s a next_s None = Inr r"
    and "rs = [(r, 1)]"
    by (auto simp: reward_law_def split: sum.splits)
  with False assms(1) show ?thesis
    by (simp add: get_value_def getitem_def Q_inner_def)
qed

lemma items_loop_sum:
  assumes "list_all (\<lambda>(next_s, p). next_s < length V \<and> reward_law m s a next_s (rews next_s)) items"
  shows "items_loop m gamma V s a items v = Inr (v + Q_formula gamma V items rews)"
  using assms
proof (induction items arbitrary: v)
  case Nil
  then show ?case by (simp add: Q_formula_def)
next
  case (Cons x items)
  obtain next_s p where x: "x = (next_s, p)" by (cases x)
  from Cons.prems x have ok: "next_s < length V" "reward_law m s a next_s (rews next_s)"
    and rest: "list_all (\<lambda>(next_s, p). next_s < length V \<and> reward_law m s a next_s (rews next_s)) items"
    by simp_all
  have "items_loop m gamma V s a (x # items) v
      = items_loop m gamma V s a items (v + p * Q_inner gamma V next_s (rews next_s))"
    using x get_value_inner [OF ok] by simp
  also have "\<dots> = Inr (v + p * Q_inner gamma V next_s (rews next_s) + Q_formula gamma V items rews)"
    by (rule Cons.IH [OF rest])
  finally show ?case using x by (simp add: Q_formula_def)
qed

lemma states_loop_sum:
  assumes "list_all (\<lambda>(next_s, p). next_s < length V \<and> reward_law m s a next_s (rews next_s)) succs"
      and "list_all (\<lambda>(next_s, p). model_transition_function m s a (Some next_s) = Inr (TF_Prob p)) succs"
  shows "states_loop m gamma V s a (map fst succs) v = Inr (v + Q_formula gamma V succs rews)"
  using assms
proof (induction succs arbitrary: v)
  case Nil
  then show ?case by (simp add: Q_formula_def)
next
  case (Cons x succs)
  obtain next_s p where x: "x = (next_s, p)" by (cases x)
  from Cons.prems x have ok: "next_s < length V" "reward_law m s a next_s (rews next_s)"
    and tf: "model_transition_function m s a (Some next_s) = Inr (TF_Prob p)"
    and rest: "list_all (\<lambda>(next_s, p). next_s < length V \<and> reward_law m s a next_s (rews next_s)) succs"
      "list_all (\<lambda>(next_s, p). model_transition_function m s a (Some next_s) = Inr (TF_Prob p)) succs"
    by simp_all
  have "states_loop m gamma V s a (map fst (x # succs)) v
      = states_loop m gamma V s a (map fst succs) (v + p * Q_inner gamma V next_s (rews next_s))"
    using x tf get_value_inner [OF ok] by simp
  also have "\<dots> = Inr (v + p * Q_inner gamma V next_s (rews next_s) + Q_formula gamma V succs rews)"
    by (rule Cons.IH [OF rest])
  finally show ?case using x by (simp add: Q_formula_def)
qed

lemma update_value_Q_formula:
  assumes "transition_law m s a succs"
      and "list_all (\<lambda>(next_s, p). next_s < length V \<and> reward_law m s a next_s (rews next_s)) succs"
  shows "update_value m gamma V s a = Inr (Q_formula gamma V succs rews)"
proof (cases "transition_function_type m \<in> {S_DETERMINISTIC, SA_DETERMINISTIC}")
  case True
  with assms(1) obtain next_s where tf: "model_transition_function m s a None = Inr (TF_State next_s)"
    and succs: "succs = [(next_s, 1)]"
    by (auto simp: transition_law_def split: sum.splits tf_result.splits)
  from assms(2) succs have ok: "next_s < length V" "reward_law m s a next_s (rews next_s)"
    by simp_all
  show ?thesis
    using True tf succs get_value_inner [OF ok]
    by (simp add: update_value_def Q_formula_def)
next
  case det: False
  show ?thesis
  proof (cases "transition_function_type m \<in> {S_PROBABILISTIC, SA_PROBABILISTIC}")
    case True
    with det assms(1) have tf: "model_transition_function m s a None = Inr (TF_Items succs)"
      by (simp add: transition_law_def)
    show ?thesis
      using det True tf items_loop_sum [OF assms(2), of gamma 0]
      by (simp add: update_value_def)
  next
    case False
    with det assms(1) have fst: "map fst succs = [0..<n_states m]"
      and all: "list_all (\<lambda>(next_s, p). model_transition_function m s a (Some next_s) = Inr (TF_Prob p)) succs"
      by (simp_all add: transition_law_def)
    show ?thesis
      using det False states_loop_sum [OF assms(2) all, of gamma 0] fst
      by (simp add: update_value_def)
  qed
qed

lemma upt_0_1: "[0..<1] = [0]"
  by (simp add: upt_rec)

lemma upt_0_2: "[0..<2] = [0, 1]" by (simp add: upt_rec)


lemma upt_0_5: "[0..<5] = [0, 1, 2, 3, 4]"
  by (simp add: upt_rec)

lemma replicate_2: "replicate 2 x = [x, x]" by (simp add: numeral_2_eq_2)


lemma example_stochastic_transitions:
  "transition_law example_mdp_stochastic 0 0 [(0, 1/2), (1, 1/2)]"
  by (simp add: transition_law_def example_mdp_stochastic_def)

lemma example_stochastic_rewards:
  "list_all (\<lambda>(next_s, p). next_s < length [2, 4::real]
      \<and> reward_law example_mdp_stochastic 0 0 next_s ([(0, 1/4), (1, 3/4)])) [(0, 1/2), (1, 1/2)]"
  by (simp add: reward_law_def example_mdp_stochastic_def)

text \<open>
  Claim C3. For every state \<open>s\<close> and action \<open>a\<close>, \<^verbatim>\<open>_update_value(s, a)\<close> returns
  \<open>\<Sum>\<^sub>s\<^sub>' P(s' | s, a) * \<Sum>\<^sub>r P(r | s, a, s') * (r + \<gamma> * V(s'))\<close>, where the outer sum is over the
  single successor for a deterministic transition kind and the inner sum is over the
  scalar reward for a reward kind other than \<open>SASR\<close>. The hypotheses say that the model
  answers every lookup the sums need and that the successors are states of \<open>V\<close>.
\<close>

theorem update_value_is_Q:
  assumes "transition_law m s a succs"
      and "list_all (\<lambda>(next_s, p). next_s < length V \<and> reward_law m s a next_s (rews next_s)) succs"
  shows "update_value m gamma V s a
       = Inr (\<Sum>(next_s, p) \<leftarrow> succs. p * (\<Sum>(r, q) \<leftarrow> rews next_s. q * (r + gamma * V ! next_s)))"
  using update_value_Q_formula [OF assms, of gamma]
  by (simp add: Q_formula_def Q_inner_def)

theorem update_value_is_Q_witness:
  "transition_law example_mdp_stochastic 0 0 [(0, 1/2), (1, 1/2)]
   \<and> list_all (\<lambda>(next_s, p). next_s < length [2, 4::real]
        \<and> reward_law example_mdp_stochastic 0 0 next_s [(0, 1/4), (1, 3/4)]) [(0, 1/2), (1, 1/2)]
   \<and> update_value example_mdp_stochastic (1/2) [2, 4] 0 0 = Inr (9/4)"
proof -
  have "update_value example_mdp_stochastic (1/2) [2, 4] 0 0 = Inr (9/4)"
    using update_value_is_Q [OF example_stochastic_transitions example_stochastic_rewards, of "1/2"]
    by simp
  with example_stochastic_transitions example_stochastic_rewards show ?thesis by blast
qed

subsection \<open>Value iteration\<close>

lemma np_max_loop_Max: "np_max_loop xs mx = Max (insert mx (set xs))"
proof (induction xs arbitrary: mx)
  case Nil
  then show ?case by simp
next
  case (Cons x xs)
  have "Max (insert (if mx < x then x else mx) (set xs)) = Max (insert mx (insert x (set xs)))"
    by (cases "set xs = {}") (auto simp: max_def Max_insert)
  then show ?case using Cons.IH by simp
qed

lemma np_max_Max: "xs \<noteq> [] \<Longrightarrow> np_max xs = Inr (Max (set xs))"
  by (cases xs) (simp_all add: np_max_loop_Max)




lemma first_argmax_unique: "first_argmax xs a \<Longrightarrow> first_argmax xs b \<Longrightarrow> a = b"
  unfolding first_argmax_def
  by (metis linorder_neqE_nat order_less_irrefl)

lemma first_argmax_Least:
  assumes "first_argmax xs a"
  shows "a = (LEAST i. i < length xs \<and> xs ! i = Max (set xs))"
proof (rule Least_equality [symmetric])
  show "a < length xs \<and> xs ! a = Max (set xs)"
    using assms by (simp add: first_argmax_def)
next
  fix y assume "y < length xs \<and> xs ! y = Max (set xs)"
  then show "a \<le> y"
    using assms unfolding first_argmax_def by (metis not_le_imp_less order_less_irrefl)
qed






























subsection \<open>Policy iteration\<close>

lemma policy_evaluation_returns_None:
  "policy_evaluation m gamma eps st = Some (Inr (st', returned)) \<Longrightarrow> returned = None"
  by (auto simp: policy_evaluation_def split: option.splits sum.splits)

lemma PI_while_normal_return:
  assumes "PI_while m gamma eps policy_stable st = Some r"
  shows "isl r \<or> \<not> py_not policy_stable"
proof -
  let ?Q = "\<lambda>(m::mdp) (gamma::real) (eps::real) policy_stable (st::solver) (r::error + solver).
              isl r \<or> \<not> py_not policy_stable"
  show "?Q m gamma eps policy_stable st r"
  proof (rule PI_while.raw_induct [where P = ?Q, OF _ assms])
    fix f m gamma eps policy_stable st r
    assume IH: "\<And>m gamma eps policy_stable st r.
                  f m gamma eps policy_stable st = Some r \<Longrightarrow> ?Q m gamma eps policy_stable st r"
      and body: "(if py_not policy_stable then
        (case policy_improvement m gamma st of
           Inl e \<Rightarrow> Some (Inl e)
         | Inr (st1, improvement_stable) \<Rightarrow>
             (case policy_evaluation m gamma eps st1 of
                None \<Rightarrow> None
              | Some (Inl e) \<Rightarrow> Some (Inl e)
              | Some (Inr (st2, returned)) \<Rightarrow> f m gamma eps returned st2))
      else Some (Inr st)) = Some r"
    show "?Q m gamma eps policy_stable st r"
    proof (cases "py_not policy_stable")
      case False
      then show ?thesis by simp
    next
      case True
      show ?thesis
      proof (cases "isl r")
        case True
        then show ?thesis by simp
      next
        case False
        with True body obtain st1 b st2 returned where
          "policy_evaluation m gamma eps st1 = Some (Inr (st2, returned))"
          and call: "f m gamma eps returned st2 = Some r"
          by (auto split: sum.splits option.splits)
        then have "returned = None" by (simp add: policy_evaluation_returns_None)
        with IH [OF call] False show ?thesis by simp
      qed
    qed
  qed
qed

lemma PI_fit_never_returns: "PI_fit m gamma eps st \<noteq> Some (Inr st')"
proof
  assume "PI_fit m gamma eps st = Some (Inr st')"
  from PI_while_normal_return [OF this [unfolded PI_fit_def]] show False by simp
qed

lemma zero_improvement:
  "policy_improvement example_mdp_zero gamma (DeterministicMDPPolicy_init example_mdp_zero)
     = Inr (DeterministicMDPPolicy_init example_mdp_zero, True)"
  by (simp add: policy_improvement_def update_policy_def DeterministicMDPPolicy_init_def
      action_values_def update_value_def get_value_def getitem_def setitem_def
      example_mdp_zero_def upt_0_1 upt_0_2 replicate_2)

lemma zero_evaluation_sweep:
  "policy_evaluation_loop example_mdp_zero gamma [0..<n_states example_mdp_zero]
      (DeterministicMDPPolicy_init example_mdp_zero) 0
     = Inr (DeterministicMDPPolicy_init example_mdp_zero, 0)"
  by (simp add: DeterministicMDPPolicy_init_def
      update_value_def get_value_def getitem_def setitem_def
      example_mdp_zero_def upt_0_1)

lemma zero_evaluation:
  assumes "0 \<le> eps" and "eps + 1 < 2 ^ 53"
  shows "policy_evaluation example_mdp_zero gamma eps (DeterministicMDPPolicy_init example_mdp_zero)
     = Some (Inr (DeterministicMDPPolicy_init example_mdp_zero, None))"
proof -
  let ?st = "DeterministicMDPPolicy_init example_mdp_zero"
  have entry: "eps < binary64 (eps + 1)"
    using assms by (rule binary64_entry)
  have "policy_evaluation_while example_mdp_zero gamma eps (binary64 (eps + 1)) ?st
      = policy_evaluation_while example_mdp_zero gamma eps 0 ?st"
    using entry by (subst policy_evaluation_while.simps) (simp add: zero_evaluation_sweep)
  also have "\<dots> = Some (Inr ?st)"
    using assms(1) by (subst policy_evaluation_while.simps) simp
  finally show ?thesis by (simp add: policy_evaluation_def)
qed

lemma PI_while_zero:
  assumes "PI_while m gamma eps policy_stable st = Some r"
  shows "\<not> (m = example_mdp_zero \<and> 0 \<le> eps \<and> eps + 1 < 2 ^ 53
            \<and> st = DeterministicMDPPolicy_init example_mdp_zero \<and> py_not policy_stable)"
proof -
  let ?Q = "\<lambda>m (gamma::real) eps policy_stable st (r::error + solver).
     \<not> (m = example_mdp_zero \<and> 0 \<le> eps \<and> eps + 1 < 2 ^ 53
            \<and> st = DeterministicMDPPolicy_init example_mdp_zero \<and> py_not policy_stable)"
  show "?Q m gamma eps policy_stable st r"
  proof (rule PI_while.raw_induct [where P = ?Q, OF _ assms])
    fix f m gamma eps policy_stable st r
    assume IH: "\<And>m gamma eps policy_stable st r.
                  f m gamma eps policy_stable st = Some r \<Longrightarrow> ?Q m gamma eps policy_stable st r"
      and body: "(if py_not policy_stable then
        (case policy_improvement m gamma st of
           Inl e \<Rightarrow> Some (Inl e)
         | Inr (st1, improvement_stable) \<Rightarrow>
             (case policy_evaluation m gamma eps st1 of
                None \<Rightarrow> None
              | Some (Inl e) \<Rightarrow> Some (Inl e)
              | Some (Inr (st2, returned)) \<Rightarrow> f m gamma eps returned st2))
      else Some (Inr st)) = Some r"
    show "?Q m gamma eps policy_stable st r"
    proof
      assume a: "m = example_mdp_zero \<and> 0 \<le> eps \<and> eps + 1 < 2 ^ 53
                 \<and> st = DeterministicMDPPolicy_init example_mdp_zero \<and> py_not policy_stable"
      with body have "f example_mdp_zero gamma eps None
                        (DeterministicMDPPolicy_init example_mdp_zero) = Some r"
        by (simp add: zero_improvement zero_evaluation)
      from IH [OF this] a show False by simp
    qed
  qed
qed

text \<open>
  Claim C1 says that \<^verbatim>\<open>PolicyIteration.fit\<close> terminates, its loop ending when a
  policy-improvement pass changes no action. On the model with one state, two actions and
  no reward, started from the constructor's arrays with \<open>gamma = eps = 1/1000\<close>, the first
  improvement pass changes nothing and reports the policy stable, yet \<^verbatim>\<open>fit\<close> never
  returns: line 148 assigns to \<^verbatim>\<open>policy_stable\<close> the value of \<^verbatim>\<open>_policy_evaluation()\<close>, which
  is \<open>None\<close>, so the loop condition stays true.
\<close>

theorem PI_fit_runs_forever:
  "policy_improvement example_mdp_zero (1/1000) (DeterministicMDPPolicy_init example_mdp_zero)
     = Inr (DeterministicMDPPolicy_init example_mdp_zero, True)
   \<and> PI_fit example_mdp_zero (1/1000) (1/1000) (DeterministicMDPPolicy_init example_mdp_zero) = None"
proof -
  have "PI_fit example_mdp_zero (1/1000) (1/1000) (DeterministicMDPPolicy_init example_mdp_zero) \<noteq> Some r" for r
    using PI_while_zero [of example_mdp_zero "1/1000" "1/1000" "Some False"
        "DeterministicMDPPolicy_init example_mdp_zero" r]
    by (auto simp: PI_fit_def)
  then have "PI_fit example_mdp_zero (1/1000) (1/1000) (DeterministicMDPPolicy_init example_mdp_zero) = None"
    by (cases "PI_fit example_mdp_zero (1/1000) (1/1000) (DeterministicMDPPolicy_init example_mdp_zero)") auto
  then show ?thesis by (simp add: zero_improvement)
qed

section \<open>Results about \<^verbatim>\<open>create\<close>\<close>

lemma record_steps_Nil: "record_steps ep [] = ep"
  by (simp add: record_steps_def)

lemma record_steps_Cons:
  "record_steps ep (x # xs) =
     record_steps \<lparr>ep_states = ep_states ep @ [rec_state x],
                   ep_actions = ep_actions ep @ [rec_action x],
                   ep_rewards = ep_rewards ep @ [rec_reward x],
                   ep_times = ep_times ep @ [rec_time x]\<rparr> xs"
  by (simp add: record_steps_def)

lemma replay_loop_steps:
  "replay_loop env policy p ts state ep trace t w =
     (case replay_steps env policy p ts state w of
        Inl e \<Rightarrow> Inl e
      | Inr (xs, w') \<Rightarrow>
          Inr (record_steps ep xs, trace @ map rec_log xs,
               (if xs = [] then t else Some (rec_time (last xs))), w'))"
proof (induction ts arbitrary: state ep trace t w)
  case Nil
  then show ?case by (simp add: record_steps_Nil)
next
  case (Cons t' ts)
  show ?case
  proof (cases "choose_action env policy p state w")
    case (Inl e)
    then show ?thesis by simp
  next
    case (Inr c)
    obtain player action w2 where c: "c = (player, action, w2)" by (cases c)
    show ?thesis
    proof (cases "model_step env action w2")
      case (Inl e)
      with Inr c show ?thesis by simp
    next
      case step: (Inr q)
      obtain next_state reward te tr w3 where q: "q = ((next_state, reward, te, tr), w3)"
        by (cases q) auto
      show ?thesis
      proof (cases "te \<or> tr")
        case True
        with Inr c step q show ?thesis
          by (simp add: record_steps_def)
      next
        case False
        with Inr c step q show ?thesis
          by (simp add: Cons.IH record_steps_Cons split: sum.splits prod.splits)
      qed
    qed
  qed
qed

lemma replay_steps_shape:
  assumes "replay_steps env policy p ts state w = Inr (xs, w')"
  shows "length xs \<le> length ts
       \<and> map rec_time xs = take (length xs) ts
       \<and> (\<forall>j. Suc j < length xs \<longrightarrow>
              \<not> log_terminated (rec_log (xs ! j)) \<and> \<not> log_truncated (rec_log (xs ! j)))
       \<and> (length xs < length ts \<longrightarrow>
              xs \<noteq> [] \<and> (log_terminated (rec_log (last xs)) \<or> log_truncated (rec_log (last xs))))
       \<and> (ts \<noteq> [] \<longrightarrow> xs \<noteq> [] \<and> rec_state (hd xs) = state \<and> log_world (rec_log (hd xs)) = w)"
  using assms
proof (induction ts arbitrary: state w xs)
  case Nil
  then show ?case by simp
next
  case (Cons t' ts)
  from Cons.prems obtain player action w2 next_state reward te tr w3 where
        c: "choose_action env policy p state w = Inr (player, action, w2)"
    and s: "model_step env action w2 = Inr ((next_state, reward, te, tr), w3)"
    by (auto split: sum.splits prod.splits)
  let ?x = "\<lparr>rec_state = state, rec_action = action, rec_reward = reward, rec_time = t',
             rec_log = \<lparr>log_world = w, log_player = player,
                        log_terminated = te, log_truncated = tr\<rparr>\<rparr>"
  show ?case
  proof (cases "te \<or> tr")
    case True
    with Cons.prems c s have "xs = [?x]" by auto
    with True show ?thesis by auto
  next
    case False
    with Cons.prems c s obtain ys where
      ys: "replay_steps env policy p ts next_state w3 = Inr (ys, w')" and xs: "xs = ?x # ys"
      by (auto split: sum.splits prod.splits)
    note IH = Cons.IH [OF ys]
    have a: "length xs \<le> length (t' # ts)" using IH xs by simp
    have b: "map rec_time xs = take (length xs) (t' # ts)" using IH xs by simp
    have c': "\<forall>j. Suc j < length xs \<longrightarrow>
              \<not> log_terminated (rec_log (xs ! j)) \<and> \<not> log_truncated (rec_log (xs ! j))"
    proof (intro allI impI)
      fix j assume j: "Suc j < length xs"
      show "\<not> log_terminated (rec_log (xs ! j)) \<and> \<not> log_truncated (rec_log (xs ! j))"
      proof (cases j)
        case 0
        with False xs show ?thesis by simp
      next
        case (Suc i)
        with j xs have "Suc i < length ys" by simp
        with IH Suc xs show ?thesis by simp
      qed
    qed
    have d: "length xs < length (t' # ts) \<longrightarrow>
              xs \<noteq> [] \<and> (log_terminated (rec_log (last xs)) \<or> log_truncated (rec_log (last xs)))"
      using IH xs by auto
    have e: "xs \<noteq> [] \<and> rec_state (hd xs) = state \<and> log_world (rec_log (hd xs)) = w"
      using xs by simp
    show ?thesis using a b c' d e by blast
  qed
qed

lemma choose_action_policy:
  assumes "choose_action env policy 0 state w = Inr (player, action, w2)"
      and "0 \<le> fst (np_random_random env w)"
  shows "player = ''policy'' \<and> state < length policy \<and> action = policy ! state"
  using assms
  by (auto simp: choose_action_def getitem_def split: prod.splits sum.splits if_splits)

lemma choose_action_random:
  assumes "choose_action env policy 1 state w = Inr (player, action, w2)"
      and "fst (np_random_random env w) < 1"
  shows "player = ''random''
       \<and> action = fst (action_space_sample env (snd (np_random_random env w)))"
  using assms
  by (auto simp: choose_action_def split: prod.splits sum.splits if_splits)

lemma replay_steps_policy:
  assumes "replay_steps env policy 0 ts state w = Inr (xs, w')"
      and "\<forall>w. 0 \<le> fst (np_random_random env w)"
  shows "list_all (step_by_policy policy) xs"
  using assms(1)
proof (induction ts arbitrary: state w xs)
  case Nil
  then show ?case by simp
next
  case (Cons t' ts)
  from Cons.prems obtain player action w2 next_state reward te tr w3 where
        c: "choose_action env policy 0 state w = Inr (player, action, w2)"
    and s: "model_step env action w2 = Inr ((next_state, reward, te, tr), w3)"
    by (auto split: sum.splits prod.splits)
  from choose_action_policy [OF c] assms(2)
  have pol: "player = ''policy'' \<and> state < length policy \<and> action = policy ! state" by simp
  show ?case
  proof (cases "te \<or> tr")
    case True
    with Cons.prems c s pol show ?thesis by (auto simp: step_by_policy_def)
  next
    case False
    with Cons.prems c s obtain ys where
      ys: "replay_steps env policy 0 ts next_state w3 = Inr (ys, w')"
      and xs: "xs = \<lparr>rec_state = state, rec_action = action, rec_reward = reward, rec_time = t',
             rec_log = \<lparr>log_world = w, log_player = player,
                        log_terminated = te, log_truncated = tr\<rparr>\<rparr> # ys"
      by (auto split: sum.splits prod.splits)
    from Cons.IH [OF ys] xs pol show ?thesis by (simp add: step_by_policy_def)
  qed
qed

lemma replay_steps_random:
  assumes "replay_steps env policy 1 ts state w = Inr (xs, w')"
      and "\<forall>w. fst (np_random_random env w) < 1"
  shows "list_all (step_by_sampler env) xs"
  using assms(1)
proof (induction ts arbitrary: state w xs)
  case Nil
  then show ?case by simp
next
  case (Cons t' ts)
  from Cons.prems obtain player action w2 next_state reward te tr w3 where
        c: "choose_action env policy 1 state w = Inr (player, action, w2)"
    and s: "model_step env action w2 = Inr ((next_state, reward, te, tr), w3)"
    by (auto split: sum.splits prod.splits)
  from choose_action_random [OF c] assms(2)
  have rnd: "player = ''random''
       \<and> action = fst (action_space_sample env (snd (np_random_random env w)))" by simp
  show ?case
  proof (cases "te \<or> tr")
    case True
    with Cons.prems c s rnd show ?thesis by (auto simp: step_by_sampler_def)
  next
    case False
    with Cons.prems c s obtain ys where
      ys: "replay_steps env policy 1 ts next_state w3 = Inr (ys, w')"
      and xs: "xs = \<lparr>rec_state = state, rec_action = action, rec_reward = reward, rec_time = t',
             rec_log = \<lparr>log_world = w, log_player = player,
                        log_terminated = te, log_truncated = tr\<rparr>\<rparr> # ys"
      by (auto split: sum.splits prod.splits)
    from Cons.IH [OF ys] xs rnd show ?thesis by (simp add: step_by_sampler_def)
  qed
qed

lemma rollout_chain_Nil: "rollout_chain env policy []"
  by (simp add: rollout_chain_def)

lemma rollout_chain_Cons:
  assumes "ro_state x < length policy" and "ro_action x = policy ! ro_state x"
      and "model_step env (ro_action x) (ro_world x) = Inr ((state', reward, te, tr), w')"
      and "ro_reward x = reward" and "ro_terminated x = te" and "ro_truncated x = tr"
      and "xs \<noteq> [] \<longrightarrow> \<not> te \<and> \<not> tr \<and> ro_state (hd xs) = state' \<and> ro_world (hd xs) = w'"
      and "rollout_chain env policy xs"
  shows "rollout_chain env policy (x # xs)"
  unfolding rollout_chain_def
proof (intro allI impI)
  fix j assume j: "j < length (x # xs)"
  show "ro_state ((x # xs) ! j) < length policy
        \<and> ro_action ((x # xs) ! j) = policy ! ro_state ((x # xs) ! j)
        \<and> (case model_step env (ro_action ((x # xs) ! j)) (ro_world ((x # xs) ! j)) of
             Inl e \<Rightarrow> False
           | Inr ((state', reward, terminated, truncated), w') \<Rightarrow>
               ro_reward ((x # xs) ! j) = reward
               \<and> ro_terminated ((x # xs) ! j) = terminated
               \<and> ro_truncated ((x # xs) ! j) = truncated
               \<and> (Suc j < length (x # xs) \<longrightarrow>
                     \<not> terminated \<and> \<not> truncated
                     \<and> ro_state ((x # xs) ! Suc j) = state' \<and> ro_world ((x # xs) ! Suc j) = w'))"
  proof (cases j)
    case 0
    have "xs \<noteq> [] \<Longrightarrow> xs ! 0 = hd xs" by (simp add: hd_conv_nth)
    with 0 assms(1-7) show ?thesis by auto
  next
    case (Suc i)
    with j have i: "i < length xs" by simp
    from assms(8) [unfolded rollout_chain_def] i
    have "ro_state (xs ! i) < length policy
        \<and> ro_action (xs ! i) = policy ! ro_state (xs ! i)
        \<and> (case model_step env (ro_action (xs ! i)) (ro_world (xs ! i)) of
             Inl e \<Rightarrow> False
           | Inr ((state', reward, terminated, truncated), w') \<Rightarrow>
               ro_reward (xs ! i) = reward
               \<and> ro_terminated (xs ! i) = terminated
               \<and> ro_truncated (xs ! i) = truncated
               \<and> (Suc i < length xs \<longrightarrow>
                     \<not> terminated \<and> \<not> truncated
                     \<and> ro_state (xs ! Suc i) = state' \<and> ro_world (xs ! Suc i) = w'))"
      by blast
    then show ?thesis
      unfolding Suc nth_Cons_Suc length_Cons Suc_less_eq .
  qed
qed

lemma expert_loop_rollout:
  assumes "expert_loop env policy ts state target w = Inr (target', w')"
  shows "target' = target + sum_list (map ro_reward (expert_rollout env policy ts state w))
       \<and> length (expert_rollout env policy ts state w) \<le> length ts
       \<and> rollout_chain env policy (expert_rollout env policy ts state w)
       \<and> (ts \<noteq> [] \<longrightarrow> expert_rollout env policy ts state w \<noteq> []
             \<and> ro_state (hd (expert_rollout env policy ts state w)) = state
             \<and> ro_world (hd (expert_rollout env policy ts state w)) = w)
       \<and> (length (expert_rollout env policy ts state w) < length ts \<longrightarrow>
             ro_terminated (last (expert_rollout env policy ts state w))
             \<or> ro_truncated (last (expert_rollout env policy ts state w)))"
  using assms
proof (induction ts arbitrary: state target w)
  case Nil
  then show ?case by (simp add: rollout_chain_Nil)
next
  case (Cons i ts)
  from Cons.prems obtain action state' reward te tr w1 where
        a: "getitem policy state = Inr action"
    and s: "model_step env action w = Inr ((state', reward, te, tr), w1)"
    by (auto split: sum.splits prod.splits)
  from a have a': "state < length policy" "action = policy ! state"
    by (auto simp: getitem_def split: if_splits)
  let ?x = "\<lparr>ro_world = w, ro_state = state, ro_action = action, ro_reward = reward,
             ro_terminated = te, ro_truncated = tr\<rparr>"
  show ?case
  proof (cases "te \<or> tr")
    case True
    have xs: "expert_rollout env policy (i # ts) state w = [?x]"
      using a s True by simp
    have "rollout_chain env policy [?x]"
      by (rule rollout_chain_Cons [OF _ _ _ _ _ _ _ rollout_chain_Nil])
         (use a' s in simp_all)
    with Cons.prems a s True show ?thesis unfolding xs by auto
  next
    case False
    let ?ys = "expert_rollout env policy ts state' w1"
    have xs: "expert_rollout env policy (i # ts) state w = ?x # ?ys"
      using a s False by simp
    from Cons.prems a s False
    have rest: "expert_loop env policy ts state' (target + reward) w1 = Inr (target', w')"
      by simp
    note IH = Cons.IH [OF rest]
    have hd: "?ys \<noteq> [] \<longrightarrow> \<not> te \<and> \<not> tr \<and> ro_state (hd ?ys) = state' \<and> ro_world (hd ?ys) = w1"
    proof
      assume "?ys \<noteq> []"
      then have "ts \<noteq> []" by (cases ts) auto
      with IH False show "\<not> te \<and> \<not> tr \<and> ro_state (hd ?ys) = state' \<and> ro_world (hd ?ys) = w1"
        by simp
    qed
    have chain: "rollout_chain env policy (?x # ?ys)"
      by (rule rollout_chain_Cons [where state' = state' and reward = reward and te = te
            and tr = tr and w' = w1])
         (use a' s hd IH in simp_all)
    have last: "length (?x # ?ys) < length (i # ts) \<longrightarrow>
             ro_terminated (last (?x # ?ys)) \<or> ro_truncated (last (?x # ?ys))"
    proof
      assume l: "length (?x # ?ys) < length (i # ts)"
      then have "length ?ys < length ts" by simp
      moreover from this have "?ys \<noteq> []" using IH by (cases ts) auto
      ultimately show "ro_terminated (last (?x # ?ys)) \<or> ro_truncated (last (?x # ?ys))"
        using IH by simp
    qed
    show ?thesis unfolding xs using IH chain last by simp
  qed
qed

lemma replays_loop_post:
  assumes "replays_loop env policy p seed max_step is acc = Inr acc'"
      and "0 < max_step"
  shows "\<exists>eps trs. data acc' = data acc @ eps \<and> traces acc' = traces acc @ trs
           \<and> length eps = length is
           \<and> list_all2 (replay_of env policy p seed max_step) eps trs
           \<and> data_min_step acc'
               = Min (insert (data_min_step acc) ((\<lambda>tr. length tr - 1) ` set trs))
           \<and> data_max_step acc'
               = Max (insert (data_max_step acc) ((\<lambda>tr. length tr - 1) ` set trs))"
  using assms(1)
proof (induction "is" arbitrary: acc)
  case Nil
  then show ?case by simp
next
  case (Cons i "is")
  obtain state0 w1 where r: "model_reset env seed (world acc) = (state0, w1)"
    by (cases "model_reset env seed (world acc)")
  let ?ep0 = "\<lparr>ep_states = [], ep_actions = [], ep_rewards = [], ep_times = []\<rparr>"
  from Cons.prems r obtain ep tr t w2 where
    l: "replay_loop env policy p [0..<max_step] (model_current_state env w1) ?ep0 []
          (loop_t acc) w1 = Inr (ep, tr, t, w2)"
    by (auto split: sum.splits prod.splits)
  from l obtain xs where
        xs: "replay_steps env policy p [0..<max_step] (model_current_state env w1) w1 = Inr (xs, w2)"
    and ep: "ep = record_steps ?ep0 xs" and tr: "tr = map rec_log xs"
    and t: "t = (if xs = [] then loop_t acc else Some (rec_time (last xs)))"
    by (auto simp: replay_loop_steps split: sum.splits prod.splits)
  from replay_steps_shape [OF xs] assms(2)
  have ne: "xs \<noteq> []" and times: "map rec_time xs = take (length xs) [0..<max_step]"
    and len: "length xs \<le> max_step"
    by simp_all
  have "rec_time (last xs) = last (map rec_time xs)"
    using ne by (simp add: last_map)
  also have "\<dots> = last [0..<length xs]"
    using times len by simp
  also have "\<dots> = length xs - 1"
    using ne by simp
  finally have tv: "t = Some (length tr - 1)" using t ne tr by simp
  have rof: "replay_of env policy p seed max_step ep tr"
    unfolding replay_of_def using xs ep tr r
    by (intro exI [of _ "world acc"] exI [of _ xs] exI [of _ w2]) simp
  let ?acc1 = "\<lparr>data = data acc @ [ep], traces = traces acc @ [tr],
             data_min_step = (if length tr - 1 < data_min_step acc then length tr - 1
                              else data_min_step acc),
             data_max_step = (if length tr - 1 > data_max_step acc then length tr - 1
                              else data_max_step acc),
             loop_t = Some (length tr - 1), world = w2\<rparr>"
  from Cons.prems r l tv
  have rest: "replays_loop env policy p seed max_step is ?acc1 = Inr acc'"
    by (simp cong: if_cong)
  from Cons.IH [OF rest] obtain eps trs where
        d: "data acc' = (data acc @ [ep]) @ eps" and tcs: "traces acc' = (traces acc @ [tr]) @ trs"
    and n: "length eps = length is"
    and all: "list_all2 (replay_of env policy p seed max_step) eps trs"
    and mn: "data_min_step acc'
               = Min (insert (data_min_step ?acc1) ((\<lambda>tr. length tr - 1) ` set trs))"
    and mx: "data_max_step acc'
               = Max (insert (data_max_step ?acc1) ((\<lambda>tr. length tr - 1) ` set trs))"
    by auto
  let ?f = "\<lambda>tr::'a step_log list. length tr - 1"
  have fin: "finite (?f ` set trs)" by simp
  have mn': "data_min_step acc' = Min (insert (data_min_step acc) (?f ` set (tr # trs)))"
  proof -
    have "data_min_step ?acc1 = min (data_min_step acc) (?f tr)" by (simp add: min_def)
    then have "data_min_step acc' = Min (insert (min (data_min_step acc) (?f tr)) (?f ` set trs))"
      using mn by simp
    also have "\<dots> = Min (insert (data_min_step acc) (insert (?f tr) (?f ` set trs)))"
      using fin by (cases "?f ` set trs = {}") (simp_all add: min.assoc)
    finally show ?thesis by simp
  qed
  have mx': "data_max_step acc' = Max (insert (data_max_step acc) (?f ` set (tr # trs)))"
  proof -
    have "data_max_step ?acc1 = max (data_max_step acc) (?f tr)" by (simp add: max_def)
    then have "data_max_step acc' = Max (insert (max (data_max_step acc) (?f tr)) (?f ` set trs))"
      using mx by simp
    also have "\<dots> = Max (insert (data_max_step acc) (insert (?f tr) (?f ` set trs)))"
      using fin by (cases "?f ` set trs = {}") (simp_all add: max.assoc)
    finally show ?thesis by simp
  qed
  show ?case
    using d tcs n all rof mn' mx'
    by (intro exI [of _ "ep # eps"] exI [of _ "tr # trs"]) simp
qed

lemma replays_loop_unbound:
  assumes "loop_t acc = None"
  shows "replays_loop env policy p seed 0 (i # is) acc = Inl UnboundLocalError"
  using assms by (simp split: prod.splits)

lemma replay_of_well_recorded:
  assumes "replay_of env policy p seed max_step ep trace"
  shows "well_recorded max_step ep trace"
proof -
  from assms obtain w xs w' where
        xs: "replay_steps env policy p [0..<max_step]
               (model_current_state env (snd (model_reset env seed w)))
               (snd (model_reset env seed w)) = Inr (xs, w')"
    and ep: "ep = record_steps \<lparr>ep_states = [], ep_actions = [], ep_rewards = [], ep_times = []\<rparr> xs"
    and tr: "trace = map rec_log xs"
    unfolding replay_of_def by blast
  note sh = replay_steps_shape [OF xs]
  from sh have len: "length xs \<le> max_step" by simp
  from sh len have times: "map rec_time xs = [0..<length xs]" by simp
  from sh have nonlast: "\<forall>j. Suc j < length xs \<longrightarrow> \<not> log_terminated (rec_log (xs ! j))"
    by simp
  from sh have stop: "length xs < max_step \<longrightarrow>
      xs \<noteq> [] \<and> (log_terminated (rec_log (last xs)) \<or> log_truncated (rec_log (last xs)))"
    by simp
  have tm: "\<forall>k<length trace. log_terminated (trace ! k) \<longrightarrow> length xs = k + 1"
  proof (intro allI impI)
    fix k assume k: "k < length trace" and t: "log_terminated (trace ! k)"
    from k tr have kx: "k < length xs" by simp
    with t tr have "log_terminated (rec_log (xs ! k))" by simp
    with nonlast have "\<not> Suc k < length xs" by blast
    with kx show "length xs = k + 1" by simp
  qed
  have last: "xs \<noteq> [] \<Longrightarrow> last trace = rec_log (last xs)"
    using tr by (simp add: last_map)
  show ?thesis
    unfolding well_recorded_def
    using ep tr len times tm stop last by (auto simp: record_steps_def)
qed

lemma replay_of_starts_at_reset:
  assumes "replay_of env policy p seed max_step ep trace" and "0 < max_step"
  shows "\<exists>w. trace \<noteq> [] \<and> ep_states ep \<noteq> []
           \<and> log_world (hd trace) = snd (model_reset env seed w)
           \<and> hd (ep_states ep) = model_current_state env (snd (model_reset env seed w))"
proof -
  from assms(1) obtain w xs w' where
        xs: "replay_steps env policy p [0..<max_step]
               (model_current_state env (snd (model_reset env seed w)))
               (snd (model_reset env seed w)) = Inr (xs, w')"
    and ep: "ep = record_steps \<lparr>ep_states = [], ep_actions = [], ep_rewards = [], ep_times = []\<rparr> xs"
    and tr: "trace = map rec_log xs"
    unfolding replay_of_def by blast
  from replay_steps_shape [OF xs] assms(2)
  have "xs \<noteq> [] \<and> rec_state (hd xs) = model_current_state env (snd (model_reset env seed w))
        \<and> log_world (rec_log (hd xs)) = snd (model_reset env seed w)"
    by simp
  with ep tr show ?thesis
    by (intro exI [of _ w]) (simp add: record_steps_def hd_map)
qed

lemma replay_of_policy:
  assumes "replay_of env policy 0 seed max_step ep trace"
      and "\<forall>w. 0 \<le> fst (np_random_random env w)"
      and "k < length (ep_actions ep)"
  shows "log_player (trace ! k) = ''policy'' \<and> ep_states ep ! k < length policy
       \<and> ep_actions ep ! k = policy ! (ep_states ep ! k)"
proof -
  from assms(1) obtain w xs w' where
        xs: "replay_steps env policy 0 [0..<max_step]
               (model_current_state env (snd (model_reset env seed w)))
               (snd (model_reset env seed w)) = Inr (xs, w')"
    and ep: "ep = record_steps \<lparr>ep_states = [], ep_actions = [], ep_rewards = [], ep_times = []\<rparr> xs"
    and tr: "trace = map rec_log xs"
    unfolding replay_of_def by blast
  from assms(3) ep have k: "k < length xs" by (simp add: record_steps_def)
  from replay_steps_policy [OF xs assms(2)] k have "step_by_policy policy (xs ! k)"
    by (simp add: list_all_length)
  with k ep tr show ?thesis by (simp add: step_by_policy_def record_steps_def)
qed

lemma replay_of_random:
  assumes "replay_of env policy 1 seed max_step ep trace"
      and "\<forall>w. fst (np_random_random env w) < 1"
      and "k < length (ep_actions ep)"
  shows "log_player (trace ! k) = ''random''
       \<and> ep_actions ep ! k
           = fst (action_space_sample env (snd (np_random_random env (log_world (trace ! k)))))"
proof -
  from assms(1) obtain w xs w' where
        xs: "replay_steps env policy 1 [0..<max_step]
               (model_current_state env (snd (model_reset env seed w)))
               (snd (model_reset env seed w)) = Inr (xs, w')"
    and ep: "ep = record_steps \<lparr>ep_states = [], ep_actions = [], ep_rewards = [], ep_times = []\<rparr> xs"
    and tr: "trace = map rec_log xs"
    unfolding replay_of_def by blast
  from assms(3) ep have k: "k < length xs" by (simp add: record_steps_def)
  from replay_steps_random [OF xs assms(2)] k have "step_by_sampler env (xs ! k)"
    by (simp add: list_all_length)
  with k ep tr show ?thesis by (simp add: step_by_sampler_def record_steps_def)
qed

lemma choose_action_world:
  assumes "choose_action env policy p state w = Inr (player, action, w2)"
  shows "w2 = step_world env \<lparr>log_world = w, log_player = player,
                               log_terminated = te, log_truncated = tr\<rparr>"
  using assms
  by (auto simp: choose_action_def step_world_def split: prod.splits sum.splits if_splits)

lemma replay_steps_chain:
  assumes "replay_steps env policy p ts state w = Inr (xs, w')"
  shows "\<forall>k<length xs.
        case model_step env (rec_action (xs ! k)) (step_world env (rec_log (xs ! k))) of
          Inl e \<Rightarrow> False
        | Inr ((state', reward, terminated, truncated), w'') \<Rightarrow>
            rec_reward (xs ! k) = reward
            \<and> log_terminated (rec_log (xs ! k)) = terminated
            \<and> log_truncated (rec_log (xs ! k)) = truncated
            \<and> (Suc k < length xs \<longrightarrow>
                  rec_state (xs ! Suc k) = state' \<and> log_world (rec_log (xs ! Suc k)) = w'')"
  using assms
proof (induction ts arbitrary: state w xs)
  case Nil
  then show ?case by simp
next
  case (Cons t' ts)
  from Cons.prems obtain player action w2 next_state reward te tr w3 where
        c: "choose_action env policy p state w = Inr (player, action, w2)"
    and s: "model_step env action w2 = Inr ((next_state, reward, te, tr), w3)"
    by (auto split: sum.splits prod.splits)
  let ?l = "\<lparr>log_world = w, log_player = player, log_terminated = te, log_truncated = tr\<rparr>"
  let ?x = "\<lparr>rec_state = state, rec_action = action, rec_reward = reward, rec_time = t',
             rec_log = ?l\<rparr>"
  from choose_action_world [OF c, of te tr] have w2: "w2 = step_world env ?l" .
  have s': "model_step env (rec_action ?x) (step_world env (rec_log ?x))
              = Inr ((next_state, reward, te, tr), w3)"
    using s w2 by simp
  show ?case
  proof (cases "te \<or> tr")
    case True
    with Cons.prems c s have xs: "xs = [?x]" by auto
    show ?thesis unfolding xs using s' by simp
  next
    case False
    with Cons.prems c s obtain ys where
      ys: "replay_steps env policy p ts next_state w3 = Inr (ys, w')" and xs: "xs = ?x # ys"
      by (auto split: sum.splits prod.splits)
    note IH = Cons.IH [OF ys]
    from replay_steps_shape [OF ys]
    have hd: "ys \<noteq> [] \<longrightarrow> rec_state (hd ys) = next_state \<and> log_world (rec_log (hd ys)) = w3"
      by (cases ts) auto
    show ?thesis
    proof (intro allI impI)
      fix k assume k: "k < length xs"
      show "case model_step env (rec_action (xs ! k)) (step_world env (rec_log (xs ! k))) of
          Inl e \<Rightarrow> False
        | Inr ((state', reward, terminated, truncated), w'') \<Rightarrow>
            rec_reward (xs ! k) = reward
            \<and> log_terminated (rec_log (xs ! k)) = terminated
            \<and> log_truncated (rec_log (xs ! k)) = truncated
            \<and> (Suc k < length xs \<longrightarrow>
                  rec_state (xs ! Suc k) = state' \<and> log_world (rec_log (xs ! Suc k)) = w'')"
      proof (cases k)
        case 0
        have "ys \<noteq> [] \<Longrightarrow> ys ! 0 = hd ys" by (simp add: hd_conv_nth)
        with hd have "ys \<noteq> [] \<longrightarrow> rec_state (ys ! 0) = next_state \<and> log_world (rec_log (ys ! 0)) = w3"
          by simp
        then show ?thesis unfolding 0 xs using s' by auto
      next
        case (Suc i)
        with k xs have i: "i < length ys" by simp
        from IH i
        have "case model_step env (rec_action (ys ! i)) (step_world env (rec_log (ys ! i))) of
          Inl e \<Rightarrow> False
        | Inr ((state', reward, terminated, truncated), w'') \<Rightarrow>
            rec_reward (ys ! i) = reward
            \<and> log_terminated (rec_log (ys ! i)) = terminated
            \<and> log_truncated (rec_log (ys ! i)) = truncated
            \<and> (Suc i < length ys \<longrightarrow>
                  rec_state (ys ! Suc i) = state' \<and> log_world (rec_log (ys ! Suc i)) = w'')"
          by blast
        then show ?thesis
          unfolding Suc xs nth_Cons_Suc length_Cons Suc_less_eq .
      qed
    qed
  qed
qed

lemma replay_of_chain:
  assumes "replay_of env policy p seed max_step ep trace"
  shows "replay_chain env ep trace"
proof -
  from assms obtain w xs w' where
        xs: "replay_steps env policy p [0..<max_step]
               (model_current_state env (snd (model_reset env seed w)))
               (snd (model_reset env seed w)) = Inr (xs, w')"
    and ep: "ep = record_steps \<lparr>ep_states = [], ep_actions = [], ep_rewards = [], ep_times = []\<rparr> xs"
    and tr: "trace = map rec_log xs"
    unfolding replay_of_def by blast
  note ch = replay_steps_chain [OF xs]
  show ?thesis
    unfolding replay_chain_def
  proof (intro allI impI)
    fix k assume "k < length trace"
    with tr have k: "k < length xs" by simp
    have e: "ep_actions ep ! k = rec_action (xs ! k)" "ep_rewards ep ! k = rec_reward (xs ! k)"
      "trace ! k = rec_log (xs ! k)"
      using k ep tr by (simp_all add: record_steps_def)
    have e': "Suc k < length xs \<Longrightarrow> ep_states ep ! Suc k = rec_state (xs ! Suc k)
                \<and> trace ! Suc k = rec_log (xs ! Suc k)"
      using ep tr by (simp add: record_steps_def)
    from ch k
    have "case model_step env (rec_action (xs ! k)) (step_world env (rec_log (xs ! k))) of
          Inl e \<Rightarrow> False
        | Inr ((state', reward, terminated, truncated), w'') \<Rightarrow>
            rec_reward (xs ! k) = reward
            \<and> log_terminated (rec_log (xs ! k)) = terminated
            \<and> log_truncated (rec_log (xs ! k)) = truncated
            \<and> (Suc k < length xs \<longrightarrow>
                  rec_state (xs ! Suc k) = state' \<and> log_world (rec_log (xs ! Suc k)) = w'')"
      by blast
    then show "case model_step env (ep_actions ep ! k) (step_world env (trace ! k)) of
          Inl e \<Rightarrow> False
        | Inr ((state', reward, terminated, truncated), w') \<Rightarrow>
            ep_rewards ep ! k = reward
            \<and> log_terminated (trace ! k) = terminated
            \<and> log_truncated (trace ! k) = truncated
            \<and> (Suc k < length trace \<longrightarrow>
                  ep_states ep ! Suc k = state' \<and> log_world (trace ! Suc k) = w')"
      using e e' tr by (auto split: sum.splits prod.splits)
  qed
qed

lemma replay_of_first_state:
  assumes "replay_of env policy p seed max_step ep trace" and "0 < max_step"
  shows "trace \<noteq> [] \<and> ep_states ep \<noteq> []
         \<and> ep_states ep ! 0 = model_current_state env (log_world (trace ! 0))
         \<and> (\<exists>w. log_world (trace ! 0) = snd (model_reset env seed w))"
proof -
  from replay_of_starts_at_reset [OF assms] obtain w where
        t: "trace \<noteq> []" and s: "ep_states ep \<noteq> []"
    and l: "log_world (hd trace) = snd (model_reset env seed w)"
    and h: "hd (ep_states ep) = model_current_state env (snd (model_reset env seed w))"
    by blast
  from t have t0: "trace ! 0 = hd trace" by (simp add: hd_conv_nth)
  from s have s0: "ep_states ep ! 0 = hd (ep_states ep)" by (simp add: hd_conv_nth)
  from l h t0 s0 have "ep_states ep ! 0 = model_current_state env (log_world (trace ! 0))"
    by simp
  moreover from l t0 have "\<exists>w. log_world (trace ! 0) = snd (model_reset env seed w)"
    by auto
  ultimately show ?thesis using t s by blast
qed

lemma create_parts:
  assumes "create env policy n_replay max_step p seed w = Inr out"
  obtains target w1 acc where
    "expert_loop env policy [0..<max_step] (fst (model_reset env seed w)) 0
       (snd (model_reset env seed w)) = Inr (target, w1)"
    and "replays_loop env policy p seed max_step [0..<n_replay]
           \<lparr>data = [], traces = [], data_min_step = max_step, data_max_step = 0,
            loop_t = None, world = w1\<rparr> = Inr acc"
    and "target_return out = target"
    and "meta_data_min_step out = data_min_step acc"
    and "meta_data_max_step out = data_max_step acc"
    and "meta_n_replay out = n_replay"
    and "data_json out = data acc"
    and "step_traces out = traces acc"
  using assms unfolding create_def
  by (auto split: prod.splits sum.splits)

lemma create_needs_steps:
  assumes "create env policy n_replay max_step p seed w = Inr out" and "0 < n_replay"
  shows "0 < max_step"
proof (rule ccontr)
  assume "\<not> 0 < max_step"
  then have z: "max_step = 0" by simp
  from assms(2) have upt: "[0..<n_replay] = 0 # [Suc 0..<n_replay]" by (simp add: upt_conv_Cons)
  from assms(1) obtain w1 acc where
    "replays_loop env policy p seed max_step [0..<n_replay]
           \<lparr>data = [], traces = [], data_min_step = max_step, data_max_step = 0,
            loop_t = None, world = w1\<rparr> = Inr acc"
    by (rule create_parts)
  then show False
    unfolding z upt by (simp add: replays_loop_unbound)
qed

lemma create_replays:
  assumes "create env policy n_replay max_step p seed w = Inr out"
  shows "length (data_json out) = n_replay \<and> length (step_traces out) = n_replay
       \<and> list_all2 (replay_of env policy p seed max_step) (data_json out) (step_traces out)
       \<and> (0 < n_replay \<longrightarrow>
            meta_data_min_step out
              = Min (insert max_step ((\<lambda>tr. length tr - 1) ` set (step_traces out)))
          \<and> meta_data_max_step out
              = Max (insert 0 ((\<lambda>tr. length tr - 1) ` set (step_traces out))))"
proof (cases "0 < n_replay")
  case False
  then have "[0..<n_replay] = []" by simp
  with assms False show ?thesis
    by (elim create_parts) auto
next
  case True
  with assms have ms: "0 < max_step" by (rule create_needs_steps)
  from assms obtain w1 acc where
        l: "replays_loop env policy p seed max_step [0..<n_replay]
           \<lparr>data = [], traces = [], data_min_step = max_step, data_max_step = 0,
            loop_t = None, world = w1\<rparr> = Inr acc"
    and o: "meta_data_min_step out = data_min_step acc"
      "meta_data_max_step out = data_max_step acc"
      "data_json out = data acc" "step_traces out = traces acc"
    by (rule create_parts)
  from replays_loop_post [OF l ms] o show ?thesis
    by (auto dest: list_all2_lengthD)
qed

lemma env_total_step:
  assumes "env_total env policy seed"
  obtains state' reward te tr w' where
    "model_step env a w = Inr ((state', reward, te, tr), w')" and "state' < length policy"
proof -
  from assms have "case model_step env a w of
                Inl e \<Rightarrow> False
              | Inr ((state', reward, terminated, truncated), w') \<Rightarrow> state' < length policy"
    unfolding env_total_def by blast
  then show thesis
    using that by (auto split: sum.splits prod.splits)
qed

lemma expert_loop_returns:
  assumes "env_total env policy seed" and "state < length policy"
  shows "\<exists>r. expert_loop env policy ts state target w = Inr r"
  using assms(2)
proof (induction ts arbitrary: state target w)
  case Nil
  then show ?case by simp
next
  case (Cons i ts)
  obtain state' reward te tr w' where
    s: "model_step env (policy ! state) w = Inr ((state', reward, te, tr), w')"
    and lt: "state' < length policy"
    using assms(1) by (rule env_total_step)
  from Cons.IH [OF lt, of "target + reward" w'] s Cons.prems
  show ?case by (auto simp: getitem_def)
qed

lemma choose_action_returns:
  assumes "state < length policy"
  shows "\<exists>player action w2. choose_action env policy p state w = Inr (player, action, w2)"
  using assms
  by (auto simp: choose_action_def getitem_def split: prod.splits)

lemma replay_steps_returns:
  assumes "env_total env policy seed" and "state < length policy"
  shows "\<exists>r. replay_steps env policy p ts state w = Inr r"
  using assms(2)
proof (induction ts arbitrary: state w)
  case Nil
  then show ?case by simp
next
  case (Cons t' ts)
  from choose_action_returns [OF Cons.prems, of env p w] obtain player action w2 where
    c: "choose_action env policy p state w = Inr (player, action, w2)"
    by blast
  obtain state' reward te tr w3 where
    s: "model_step env action w2 = Inr ((state', reward, te, tr), w3)"
    and lt: "state' < length policy"
    using assms(1) by (rule env_total_step)
  from Cons.IH [OF lt, of w3] obtain ys w' where
    ys: "replay_steps env policy p ts state' w3 = Inr (ys, w')"
    by auto
  show ?case
    using c s ys by (cases "te \<or> tr") (simp_all add: Let_def)
qed

lemma replays_loop_returns:
  assumes "env_total env policy seed" and "0 < max_step"
  shows "\<exists>r. replays_loop env policy p seed max_step is acc = Inr r"
proof (induction "is" arbitrary: acc)
  case Nil
  then show ?case by simp
next
  case (Cons i "is")
  obtain state0 w1 where r: "model_reset env seed (world acc) = (state0, w1)"
    by (cases "model_reset env seed (world acc)")
  from assms(1) r have "model_current_state env w1 < length policy"
    unfolding env_total_def by (metis snd_conv)
  from replay_steps_returns [OF assms(1) this, of p "[0..<max_step]" w1]
  obtain xs w2 where
    xs: "replay_steps env policy p [0..<max_step] (model_current_state env w1) w1 = Inr (xs, w2)"
    by auto
  from replay_steps_shape [OF xs] assms(2) have ne: "xs \<noteq> []" by simp
  show ?case
    using r xs ne Cons.IH
    by (simp add: replay_loop_steps cong: if_cong)
qed

lemma create_returns:
  assumes "env_total env policy seed" and "0 < max_step \<or> n_replay = 0"
  shows "\<exists>out. create env policy n_replay max_step random_play_p seed w = Inr out"
proof -
  obtain state w0 where r: "model_reset env seed w = (state, w0)"
    by (cases "model_reset env seed w")
  with assms(1) have "state < length policy"
    unfolding env_total_def by (metis fst_conv)
  from expert_loop_returns [OF assms(1) this, of "[0..<max_step]" 0 w0]
  obtain target w1 where e: "expert_loop env policy [0..<max_step] state 0 w0 = Inr (target, w1)"
    by auto
  let ?acc = "\<lparr>data = [], traces = [], data_min_step = max_step, data_max_step = 0,
              loop_t = None, world = w1\<rparr>"
  have "\<exists>acc. replays_loop env policy random_play_p seed max_step [0..<n_replay] ?acc = Inr acc"
  proof (cases "0 < max_step")
    case True
    with assms(1) show ?thesis by (rule replays_loop_returns)
  next
    case False
    with assms(2) show ?thesis by simp
  qed
  then obtain acc where
    "replays_loop env policy random_play_p seed max_step [0..<n_replay] ?acc = Inr acc" ..
  with r e show ?thesis by (simp add: create_def)
qed

lemma example_env_reset: "model_reset example_env 42 (s, c) = (0, (0, c))"
  by (simp add: example_env_def)

lemma example_env_step: "model_step example_env a (s, c) =
   Inr (((s + a + 1) mod 3, real ((s + a + 1) mod 3), (s + a + 1) mod 3 = 2, False),
              ((s + a + 1) mod 3, c))"
  by (simp add: example_env_def)

lemma example_env_current: "model_current_state example_env (s, c) = s"
  by (simp add: example_env_def)

lemma example_env_random: "np_random_random example_env (s, c) = (if c mod 4 = 0 then 1/4 else 3/4, (s, c + 1))"
  by (simp add: example_env_def)

lemma example_env_sample: "action_space_sample example_env (s, c) = (c mod 2, (s, c + 1))"
  by (simp add: example_env_def)

lemma example_mixed_run:
  "create example_env [0, 0, 0] 2 5 (1/2) 42 (0, 0) = Inr example_mixed"
  by (simp add: create_def example_mixed_def choose_action_def getitem_def
      upt_0_5 upt_0_2 example_env_reset example_env_step example_env_current example_env_random example_env_sample)

lemma example_expert_run:
  "create example_env [0, 0, 0] 2 5 0 42 (0, 0) = Inr example_expert"
  by (simp add: create_def example_expert_def choose_action_def getitem_def
      upt_0_5 upt_0_2 example_env_reset example_env_step example_env_current example_env_random example_env_sample)

lemma example_random_run:
  "create example_env [0, 0, 0] 2 5 1 42 (0, 0) = Inr example_random"
  by (simp add: create_def example_random_def choose_action_def getitem_def
      upt_0_5 upt_0_2 example_env_reset example_env_step example_env_current example_env_random example_env_sample)

lemma example_alternating_run:
  "create example_env [0, 1, 0] 2 5 0 42 (0, 0) = Inr example_alternating"
  by (simp add: create_def example_alternating_def choose_action_def getitem_def
      upt_0_5 upt_0_2 example_env_reset example_env_step example_env_current example_env_random example_env_sample)

lemma example_env_random_range:
  "\<forall>w. 0 \<le> fst (np_random_random example_env w) \<and> fst (np_random_random example_env w) < 1"
  by (simp add: example_env_def split: prod.splits)

lemma example_expert_trace:
  "expert_trace example_env [0, 0, 0] 5 42 (0, 0) =
     [\<lparr>ro_world = (0, 0), ro_state = 0, ro_action = 0, ro_reward = 1,
       ro_terminated = False, ro_truncated = False\<rparr>,
      \<lparr>ro_world = (1, 0), ro_state = 1, ro_action = 0, ro_reward = 2,
       ro_terminated = True, ro_truncated = False\<rparr>]"
  by (simp add: expert_trace_def upt_0_5 example_env_reset example_env_step getitem_def)

lemma example_env_total: "env_total example_env [0, 0, 0] 42"
proof -
  have "x mod 3 < Suc (Suc (Suc 0))" for x :: nat
    by (simp add: numeral_3_eq_3 [symmetric])
  then show ?thesis
    by (simp add: env_total_def example_env_def split: prod.splits)
qed

text \<open>
  Claim C5. On an environment that does not raise, \<^verbatim>\<open>create\<close> returns when \<open>max_step\<close> is
  positive or \<open>n_replay\<close> is zero. Whenever it returns, it has recorded exactly \<open>n_replay\<close>
  episodes; each has four lists of one common length, which is at most \<open>max_step\<close>; and
  when a step of the episode is terminated, the length is the index of that step plus one
  (so it is the first such step, and the last step recorded).
\<close>

theorem create_episodes_well_recorded:
  "(env_total env policy seed \<and> (0 < max_step \<or> n_replay = 0) \<longrightarrow>
      (\<exists>out. create env policy n_replay max_step random_play_p seed w = Inr out))
   \<and> (\<forall>out. create env policy n_replay max_step random_play_p seed w = Inr out \<longrightarrow>
          length (data_json out) = n_replay
          \<and> length (step_traces out) = n_replay
          \<and> (\<forall>i<n_replay. well_recorded max_step (data_json out ! i) (step_traces out ! i)))"
proof (intro conjI impI allI)
  assume a: "env_total env policy seed \<and> (0 < max_step \<or> n_replay = 0)"
  from a have e: "env_total env policy seed" ..
  from a have m: "0 < max_step \<or> n_replay = 0" ..
  show "\<exists>out. create env policy n_replay max_step random_play_p seed w = Inr out"
    by (rule create_returns [OF e m])
next
  fix out
  assume run: "create env policy n_replay max_step random_play_p seed w = Inr out"
  from create_replays [OF run]
  have len: "length (data_json out) = n_replay" "length (step_traces out) = n_replay"
    and all: "list_all2 (replay_of env policy random_play_p seed max_step)
                (data_json out) (step_traces out)"
    by simp_all
  from len show "length (data_json out) = n_replay" and "length (step_traces out) = n_replay"
    by simp_all
  fix i assume "i < n_replay"
  with all len show "well_recorded max_step (data_json out ! i) (step_traces out ! i)"
    by (auto dest: list_all2_nthD intro: replay_of_well_recorded)
qed

theorem create_episodes_well_recorded_witness:
  "env_total example_env [0, 0, 0] 42 \<and> (0::nat) < 5
   \<and> create example_env [0, 0, 0] 2 5 (1/2) 42 (0, 0) = Inr example_mixed
   \<and> length (data_json example_mixed) = 2
   \<and> length (step_traces example_mixed) = 2
   \<and> well_recorded 5 (data_json example_mixed ! 0) (step_traces example_mixed ! 0)
   \<and> well_recorded 5 (data_json example_mixed ! 1) (step_traces example_mixed ! 1)
   \<and> length (ep_times (data_json example_mixed ! 1)) = 2
   \<and> log_terminated (step_traces example_mixed ! 1 ! 1)"
proof -
  note t = create_episodes_well_recorded
             [of example_env "[0, 0, 0]" 42 5 2 "1/2" "(0, 0)"]
  have p: "(0::nat) < 5" by simp
  from t example_mixed_run
  have len: "length (data_json example_mixed) = 2" "length (step_traces example_mixed) = 2"
    and all: "\<forall>i<2. well_recorded 5 (data_json example_mixed ! i) (step_traces example_mixed ! i)"
    by blast+
  have "(0::nat) < 2" and "(1::nat) < 2" by simp_all
  with all have w0: "well_recorded 5 (data_json example_mixed ! 0) (step_traces example_mixed ! 0)"
    and w1: "well_recorded 5 (data_json example_mixed ! 1) (step_traces example_mixed ! 1)"
    by blast+
  have e: "length (ep_times (data_json example_mixed ! 1)) = 2"
    and f: "log_terminated (step_traces example_mixed ! 1 ! 1)"
    by (simp_all add: example_mixed_def)
  show ?thesis by (intro conjI example_env_total p example_mixed_run len w0 w1 e f)
qed

text \<open>
  Claim C6. \<^verbatim>\<open>np.random.random()\<close> draws from the half-open interval from \<open>0\<close> to \<open>1\<close>. With
  \<open>random_play_p = 0\<close> every recorded action is \<open>policy[state]\<close> for the state recorded with
  it; with \<open>random_play_p = 1\<close> every recorded action is the value returned by
  \<^verbatim>\<open>action_space.sample()\<close>, called right after the random draw of that step. For every
  \<open>random_play_p\<close> the state recorded with a step is the current state of the environment:
  the first one is \<^verbatim>\<open>_current_state\<close> in the world that \<^verbatim>\<open>reset(seed)\<close> returned, and each later
  one is the state that \<^verbatim>\<open>step\<close>, called with the action recorded for the step before,
  returned.
\<close>

theorem create_action_source:
  assumes "create env policy n_replay max_step random_play_p seed w = Inr out"
      and "\<forall>w. 0 \<le> fst (np_random_random env w) \<and> fst (np_random_random env w) < 1"
  shows "(random_play_p = 0 \<longrightarrow>
            (\<forall>i<n_replay. \<forall>k<length (ep_actions (data_json out ! i)).
               log_player (step_traces out ! i ! k) = ''policy''
               \<and> ep_states (data_json out ! i) ! k < length policy
               \<and> ep_actions (data_json out ! i) ! k = policy ! (ep_states (data_json out ! i) ! k)))
       \<and> (random_play_p = 1 \<longrightarrow>
            (\<forall>i<n_replay. \<forall>k<length (ep_actions (data_json out ! i)).
               log_player (step_traces out ! i ! k) = ''random''
               \<and> ep_actions (data_json out ! i) ! k
                   = fst (action_space_sample env
                            (snd (np_random_random env (log_world (step_traces out ! i ! k)))))))
       \<and> (\<forall>i<n_replay.
             length (step_traces out ! i) = length (ep_actions (data_json out ! i))
             \<and> step_traces out ! i \<noteq> []
             \<and> ep_states (data_json out ! i) ! 0
                 = model_current_state env (log_world (step_traces out ! i ! 0))
             \<and> (\<exists>w'. log_world (step_traces out ! i ! 0) = snd (model_reset env seed w'))
             \<and> replay_chain env (data_json out ! i) (step_traces out ! i))"
proof -
  from create_replays [OF assms(1)]
  have len: "length (data_json out) = n_replay" "length (step_traces out) = n_replay"
    and all: "list_all2 (replay_of env policy random_play_p seed max_step)
                (data_json out) (step_traces out)"
    by simp_all
  have rof: "replay_of env policy random_play_p seed max_step (data_json out ! i) (step_traces out ! i)"
    if "i < n_replay" for i
    using all len that by (auto dest: list_all2_nthD)
  from assms(2) have lo: "\<forall>w. 0 \<le> fst (np_random_random env w)"
    and hi: "\<forall>w. fst (np_random_random env w) < 1"
    by simp_all
  have pol: "log_player (step_traces out ! i ! k) = ''policy''
               \<and> ep_states (data_json out ! i) ! k < length policy
               \<and> ep_actions (data_json out ! i) ! k = policy ! (ep_states (data_json out ! i) ! k)"
    if "random_play_p = 0" "i < n_replay" "k < length (ep_actions (data_json out ! i))" for i k
  proof -
    from rof [OF that(2)] that(1)
    have "replay_of env policy 0 seed max_step (data_json out ! i) (step_traces out ! i)" by simp
    from replay_of_policy [OF this lo that(3)] show ?thesis .
  qed
  have rnd: "log_player (step_traces out ! i ! k) = ''random''
               \<and> ep_actions (data_json out ! i) ! k
                   = fst (action_space_sample env
                            (snd (np_random_random env (log_world (step_traces out ! i ! k)))))"
    if "random_play_p = 1" "i < n_replay" "k < length (ep_actions (data_json out ! i))" for i k
  proof -
    from rof [OF that(2)] that(1)
    have "replay_of env policy 1 seed max_step (data_json out ! i) (step_traces out ! i)" by simp
    from replay_of_random [OF this hi that(3)] show ?thesis .
  qed
  have chain: "length (step_traces out ! i) = length (ep_actions (data_json out ! i))
             \<and> step_traces out ! i \<noteq> []
             \<and> ep_states (data_json out ! i) ! 0
                 = model_current_state env (log_world (step_traces out ! i ! 0))
             \<and> (\<exists>w'. log_world (step_traces out ! i ! 0) = snd (model_reset env seed w'))
             \<and> replay_chain env (data_json out ! i) (step_traces out ! i)"
    if "i < n_replay" for i
  proof -
    from that have ms: "0 < max_step" using create_needs_steps [OF assms(1)] by simp
    note r = rof [OF that]
    from replay_of_well_recorded [OF r]
    have l: "length (step_traces out ! i) = length (ep_actions (data_json out ! i))"
      by (simp add: well_recorded_def)
    from replay_of_first_state [OF r ms] replay_of_chain [OF r] l show ?thesis by blast
  qed
  from pol rnd chain show ?thesis by blast
qed

theorem create_action_source_witness:
  "create example_env [0, 1, 0] 2 5 0 42 (0, 0) = Inr example_alternating
   \<and> create example_env [0, 0, 0] 2 5 1 42 (0, 0) = Inr example_random
   \<and> (\<forall>w. 0 \<le> fst (np_random_random example_env w) \<and> fst (np_random_random example_env w) < 1)
   \<and> ep_states (data_json example_alternating ! 1) = [0, 1, 0, 1, 0]
   \<and> ep_actions (data_json example_alternating ! 1) = [0, 1, 0, 1, 0]
   \<and> ep_actions (data_json example_alternating ! 1) ! 1
        = [0, 1, 0] ! (ep_states (data_json example_alternating ! 1) ! 1)
   \<and> log_player (step_traces example_alternating ! 1 ! 1) = ''policy''
   \<and> ep_states (data_json example_alternating ! 1) ! 0
        = model_current_state example_env (log_world (step_traces example_alternating ! 1 ! 0))
   \<and> replay_chain example_env (data_json example_alternating ! 1)
        (step_traces example_alternating ! 1)
   \<and> model_step example_env 0 (step_world example_env (step_traces example_alternating ! 1 ! 0))
        = Inr ((1, 1, False, False), (1, 6))
   \<and> ep_actions (data_json example_random ! 1) ! 0
        = fst (action_space_sample example_env
                 (snd (np_random_random example_env (log_world (step_traces example_random ! 1 ! 0)))))
   \<and> log_player (step_traces example_random ! 1 ! 0) = ''random''
   \<and> replay_chain example_env (data_json example_random ! 1) (step_traces example_random ! 1)"
proof -
  note p0 = create_action_source [OF example_alternating_run example_env_random_range]
  note p1 = create_action_source [OF example_random_run example_env_random_range]
  have k0: "(1::nat) < 2" "1 < length (ep_actions (data_json example_alternating ! 1))"
    by (simp_all add: example_alternating_def)
  have k1: "0 < length (ep_actions (data_json example_random ! 1))"
    by (simp add: example_random_def)
  from p0 k0 have a: "log_player (step_traces example_alternating ! 1 ! 1) = ''policy''
      \<and> ep_actions (data_json example_alternating ! 1) ! 1
        = [0, 1, 0] ! (ep_states (data_json example_alternating ! 1) ! 1)"
    by blast
  from p0 k0(1) have c: "ep_states (data_json example_alternating ! 1) ! 0
        = model_current_state example_env (log_world (step_traces example_alternating ! 1 ! 0))
      \<and> replay_chain example_env (data_json example_alternating ! 1)
        (step_traces example_alternating ! 1)"
    by blast
  from p1 k0(1) k1 have b: "log_player (step_traces example_random ! 1 ! 0) = ''random''
      \<and> ep_actions (data_json example_random ! 1) ! 0
        = fst (action_space_sample example_env
                 (snd (np_random_random example_env (log_world (step_traces example_random ! 1 ! 0)))))"
    by blast
  from p1 k0(1) have d: "replay_chain example_env (data_json example_random ! 1)
        (step_traces example_random ! 1)"
    by blast
  have e: "ep_states (data_json example_alternating ! 1) = [0, 1, 0, 1, 0]"
    "ep_actions (data_json example_alternating ! 1) = [0, 1, 0, 1, 0]"
    by (simp_all add: example_alternating_def)
  have f: "model_step example_env 0
             (step_world example_env (step_traces example_alternating ! 1 ! 0))
        = Inr ((1, 1, False, False), (1, 6))"
    by (simp add: example_alternating_def step_world_def example_env_random example_env_step)
  show ?thesis
    using a b c d e f example_alternating_run example_random_run example_env_random_range
    by blast
qed

text \<open>
  Claim C9. The \<open>target_return\<close> that \<^verbatim>\<open>create\<close> returns is the sum of the rewards of one
  expert rollout: it starts from the state and world of \<^verbatim>\<open>reset(seed)\<close>, takes
  \<open>policy[state]\<close> at every step, goes on from the state each step returns, has at most
  \<open>max_step\<close> steps and, when it has fewer, ends with its first terminated or truncated
  step. Every replay starts in a world returned by \<^verbatim>\<open>reset\<close> called with the same \<open>seed\<close>.
\<close>

theorem create_target_return:
  assumes "create env policy n_replay max_step random_play_p seed w = Inr out"
  shows "target_return out = sum_list (map ro_reward (expert_trace env policy max_step seed w))
       \<and> length (expert_trace env policy max_step seed w) \<le> max_step
       \<and> rollout_chain env policy (expert_trace env policy max_step seed w)
       \<and> (0 < max_step \<longrightarrow>
             expert_trace env policy max_step seed w \<noteq> []
             \<and> ro_state (hd (expert_trace env policy max_step seed w)) = fst (model_reset env seed w)
             \<and> ro_world (hd (expert_trace env policy max_step seed w)) = snd (model_reset env seed w))
       \<and> (length (expert_trace env policy max_step seed w) < max_step \<longrightarrow>
             ro_terminated (last (expert_trace env policy max_step seed w))
             \<or> ro_truncated (last (expert_trace env policy max_step seed w)))
       \<and> (\<forall>i<n_replay. \<exists>w'.
             step_traces out ! i \<noteq> [] \<and> ep_states (data_json out ! i) \<noteq> []
             \<and> log_world (hd (step_traces out ! i)) = snd (model_reset env seed w')
             \<and> hd (ep_states (data_json out ! i))
                 = model_current_state env (snd (model_reset env seed w')))"
proof -
  from assms obtain target w1 where
        e: "expert_loop env policy [0..<max_step] (fst (model_reset env seed w)) 0
              (snd (model_reset env seed w)) = Inr (target, w1)"
    and t: "target_return out = target"
    by (rule create_parts)
  note r = expert_loop_rollout [OF e, folded expert_trace_def]
  have expert: "target_return out = sum_list (map ro_reward (expert_trace env policy max_step seed w))
       \<and> length (expert_trace env policy max_step seed w) \<le> max_step
       \<and> rollout_chain env policy (expert_trace env policy max_step seed w)
       \<and> (0 < max_step \<longrightarrow>
             expert_trace env policy max_step seed w \<noteq> []
             \<and> ro_state (hd (expert_trace env policy max_step seed w)) = fst (model_reset env seed w)
             \<and> ro_world (hd (expert_trace env policy max_step seed w)) = snd (model_reset env seed w))
       \<and> (length (expert_trace env policy max_step seed w) < max_step \<longrightarrow>
             ro_terminated (last (expert_trace env policy max_step seed w))
             \<or> ro_truncated (last (expert_trace env policy max_step seed w)))"
    using r t by simp
  from create_replays [OF assms]
  have len: "length (data_json out) = n_replay" "length (step_traces out) = n_replay"
    and all: "list_all2 (replay_of env policy random_play_p seed max_step)
                (data_json out) (step_traces out)"
    by simp_all
  have replays: "\<forall>i<n_replay. \<exists>w'.
             step_traces out ! i \<noteq> [] \<and> ep_states (data_json out ! i) \<noteq> []
             \<and> log_world (hd (step_traces out ! i)) = snd (model_reset env seed w')
             \<and> hd (ep_states (data_json out ! i))
                 = model_current_state env (snd (model_reset env seed w'))"
  proof (intro allI impI)
    fix i assume i: "i < n_replay"
    then have ms: "0 < max_step" using create_needs_steps [OF assms] by simp
    from all len i
    have "replay_of env policy random_play_p seed max_step (data_json out ! i) (step_traces out ! i)"
      by (auto dest: list_all2_nthD)
    from replay_of_starts_at_reset [OF this ms]
    show "\<exists>w'. step_traces out ! i \<noteq> [] \<and> ep_states (data_json out ! i) \<noteq> []
             \<and> log_world (hd (step_traces out ! i)) = snd (model_reset env seed w')
             \<and> hd (ep_states (data_json out ! i))
                 = model_current_state env (snd (model_reset env seed w'))" .
  qed
  from expert replays show ?thesis by blast
qed

theorem create_target_return_witness:
  "create example_env [0, 0, 0] 2 5 (1/2) 42 (0, 0) = Inr example_mixed
   \<and> target_return example_mixed = 3
   \<and> target_return example_mixed
       = sum_list (map ro_reward (expert_trace example_env [0, 0, 0] 5 42 (0, 0)))
   \<and> map ro_reward (expert_trace example_env [0, 0, 0] 5 42 (0, 0)) = [1, 2]
   \<and> (\<exists>w'. log_world (hd (step_traces example_mixed ! 1)) = snd (model_reset example_env 42 w'))"
proof -
  note t = create_target_return [OF example_mixed_run]
  from t have a: "target_return example_mixed
       = sum_list (map ro_reward (expert_trace example_env [0, 0, 0] 5 42 (0, 0)))"
    by blast
  have "(1::nat) < 2" by simp
  with t have b: "\<exists>w'. log_world (hd (step_traces example_mixed ! 1))
                       = snd (model_reset example_env 42 w')"
    by blast
  have c: "target_return example_mixed = 3" by (simp add: example_mixed_def)
  have d: "map ro_reward (expert_trace example_env [0, 0, 0] 5 42 (0, 0)) = [1, 2]"
    by (simp add: example_expert_trace)
  show ?thesis by (intro conjI example_mixed_run a b c d)
qed

text \<open>
  Claim C10. When \<open>n_replay \<ge> 1\<close> and \<open>max_step \<ge> 1\<close> and \<^verbatim>\<open>create\<close> returns, every episode
  is non-empty and the time of its last step is its length minus one; \<open>data_min_step\<close> is
  the least and \<open>data_max_step\<close> the greatest of these times over the episodes, so
  \<open>data_min_step \<le> data_max_step\<close>.
\<close>

theorem create_step_range:
  assumes "create env policy n_replay max_step random_play_p seed w = Inr out"
      and "1 \<le> n_replay" and "1 \<le> max_step"
  shows "(\<forall>ep \<in> set (data_json out).
            ep_times ep \<noteq> [] \<and> last (ep_times ep) = length (ep_times ep) - 1)
       \<and> meta_data_min_step out = Min ((\<lambda>ep. last (ep_times ep)) ` set (data_json out))
       \<and> meta_data_max_step out = Max ((\<lambda>ep. last (ep_times ep)) ` set (data_json out))
       \<and> meta_data_min_step out \<le> meta_data_max_step out"
proof -
  let ?f = "\<lambda>tr::'a step_log list. length tr - 1"
  let ?g = "\<lambda>ep. last (ep_times ep)"
  from create_replays [OF assms(1)] assms(2)
  have len: "length (data_json out) = n_replay" "length (step_traces out) = n_replay"
    and all: "list_all2 (replay_of env policy random_play_p seed max_step)
                (data_json out) (step_traces out)"
    and mn: "meta_data_min_step out = Min (insert max_step (?f ` set (step_traces out)))"
    and mx: "meta_data_max_step out = Max (insert 0 (?f ` set (step_traces out)))"
    by simp_all
  have wr: "well_recorded max_step (data_json out ! i) (step_traces out ! i)"
    if "i < n_replay" for i
    using all len that by (auto dest: list_all2_nthD intro: replay_of_well_recorded)
  have ne: "ep_times (data_json out ! i) \<noteq> []" if "i < n_replay" for i
    using wr [OF that] assms(3) unfolding well_recorded_def by (cases "step_traces out ! i") auto
  have fg: "?f (step_traces out ! i) = ?g (data_json out ! i)
          \<and> ?g (data_json out ! i) = length (ep_times (data_json out ! i)) - 1
          \<and> ?g (data_json out ! i) < max_step"
    if "i < n_replay" for i
  proof -
    let ?ts = "ep_times (data_json out ! i)"
    from wr [OF that] have l: "length (step_traces out ! i) = length ?ts"
      and u: "?ts = [0..<length ?ts]" and b: "length ?ts \<le> max_step"
      by (simp_all add: well_recorded_def)
    from ne [OF that] have pos: "0 < length ?ts" by simp
    have "last ?ts = last [0..<length ?ts]" using u by simp
    also have "\<dots> = length ?ts - 1" using pos by simp
    finally have e: "last ?ts = length ?ts - 1" .
    have "length ?ts - 1 < max_step" using b pos by linarith
    with e l show ?thesis by simp
  qed
  have s1: "set (step_traces out) = (\<lambda>i. step_traces out ! i) ` {..<n_replay}"
    using len(2) by (auto simp: set_conv_nth)
  have s2: "set (data_json out) = (\<lambda>i. data_json out ! i) ` {..<n_replay}"
    using len(1) by (auto simp: set_conv_nth)
  have img: "?f ` set (step_traces out) = ?g ` set (data_json out)"
  proof -
    have "?f ` set (step_traces out) = (\<lambda>i. ?f (step_traces out ! i)) ` {..<n_replay}"
      by (simp only: s1 image_image)
    also have "\<dots> = (\<lambda>i. ?g (data_json out ! i)) ` {..<n_replay}"
      using fg by (intro image_cong) simp_all
    also have "\<dots> = ?g ` set (data_json out)"
      by (simp only: s2 image_image)
    finally show ?thesis .
  qed
  let ?S = "?g ` set (data_json out)"
  have fin: "finite ?S" by simp
  have nonempty: "?S \<noteq> {}" using len(1) assms(2) by auto
  have below: "\<forall>x\<in>?S. x < max_step"
    unfolding s2 using fg by blast
  have "Min (insert max_step ?S) = Min ?S"
  proof -
    have bound: "Min ?S \<le> max_step"
      using below fin nonempty by (meson Min_in less_imp_le)
    have "Min (insert max_step ?S) = min max_step (Min ?S)"
      using fin nonempty by (rule Min_insert)
    also have "\<dots> = Min ?S"
      using bound by (rule min_absorb2)
    finally show ?thesis .
  qed
  with mn img have mn': "meta_data_min_step out = Min ?S" by simp
  have "Max (insert 0 ?S) = Max ?S"
  proof -
    have "Max (insert 0 ?S) = max 0 (Max ?S)"
      using fin nonempty by (rule Max_insert)
    also have "\<dots> = Max ?S"
      by (rule max_absorb2) simp
    finally show ?thesis .
  qed
  with mx img have mx': "meta_data_max_step out = Max ?S" by simp
  have le: "Min ?S \<le> Max ?S"
  proof -
    from fin nonempty have "Min ?S \<in> ?S" by (rule Min_in)
    with fin show ?thesis by (meson Max_ge)
  qed
  have eps: "\<forall>ep \<in> set (data_json out).
            ep_times ep \<noteq> [] \<and> last (ep_times ep) = length (ep_times ep) - 1"
    unfolding s2 using ne fg by blast
  show ?thesis using eps mn' mx' le by simp
qed

theorem create_step_range_witness:
  "create example_env [0, 0, 0] 2 5 (1/2) 42 (0, 0) = Inr example_mixed
   \<and> (1::nat) \<le> 2 \<and> (1::nat) \<le> 5
   \<and> meta_data_min_step example_mixed = 0
   \<and> meta_data_max_step example_mixed = 1
   \<and> meta_data_min_step example_mixed
        = Min ((\<lambda>ep. last (ep_times ep)) ` set (data_json example_mixed))
   \<and> meta_data_max_step example_mixed
        = Max ((\<lambda>ep. last (ep_times ep)) ` set (data_json example_mixed))"
proof -
  have h: "(1::nat) \<le> 2" "(1::nat) \<le> 5" by simp_all
  note t = create_step_range [OF example_mixed_run h]
  from t have a: "meta_data_min_step example_mixed
        = Min ((\<lambda>ep. last (ep_times ep)) ` set (data_json example_mixed))"
    and b: "meta_data_max_step example_mixed
        = Max ((\<lambda>ep. last (ep_times ep)) ` set (data_json example_mixed))"
    by blast+
  have c: "meta_data_min_step example_mixed = 0" and d: "meta_data_max_step example_mixed = 1"
    by (simp_all add: example_mixed_def)
  show ?thesis by (intro conjI example_mixed_run h a b c d)
qed

end

